theory Spec2Isabelle
  imports Complex_Main "HOL-Library.Multiset"
begin

section \<open>The number model\<close>

text \<open>
  The program computes on Go's \<^verbatim>\<open>float64\<close>, the binary64 format of IEEE 754. A
  value of the model is a real number (for a finite value), an infinity or NaN. Every
  arithmetic operation on finite values computes the exact real result and rounds it to
  the nearest value of the format, ties to the even mantissa, with gradual underflow and
  with overflow to an infinity, as the hardware does. The model has a single zero (a zero
  divisor counts as positive zero) and a single NaN.
\<close>

datatype float64 = Fin real | PInf | NInf | NaN

text \<open>The sign of an infinity.\<close>

definition inf_signed :: "bool \<Rightarrow> float64" where
  "inf_signed positive = (if positive then PInf else NInf)"

text \<open>Rounding to the nearest integer, ties to even.\<close>

definition rne :: "real \<Rightarrow> int" where
  "rne y =
     (let f = \<lfloor>y\<rfloor>; d = y - of_int f
      in if d < 1 / 2 then f
         else if 1 / 2 < d then f + 1
         else if even f then f else f + 1)"

text \<open>
  The binary exponent of a non-zero real, not below the exponent \<open>-1022\<close> of the
  subnormal values; the values of the format in this binade are the multiples of 2 to
  the exponent minus 52.
\<close>

definition f64_exponent :: "real \<Rightarrow> int" where
  "f64_exponent x = max \<lfloor>log 2 \<bar>x\<bar>\<rfloor> (- 1022)"

definition f64_huge :: real where
  "f64_huge = 2 powi 1024"

definition f64_round :: "real \<Rightarrow> float64" where
  "f64_round x =
     (if x = 0 then Fin 0
      else let q = 2 powi (f64_exponent x - 52);
               r = of_int (rne (x / q)) * q
           in if f64_huge \<le> \<bar>r\<bar> then inf_signed (0 < x) else Fin r)"

text \<open>A real number is a value of the format when rounding leaves it as it is.\<close>

definition is_f64 :: "real \<Rightarrow> bool" where
  "is_f64 x = (f64_round x = Fin x)"

text \<open>The constant that a decimal literal of a Go program denotes.\<close>

definition f64_lit :: "real \<Rightarrow> float64" where
  "f64_lit x = f64_round x"

fun f64_neg :: "float64 \<Rightarrow> float64" where
  "f64_neg (Fin a) = Fin (- a)"
| "f64_neg PInf = NInf"
| "f64_neg NInf = PInf"
| "f64_neg NaN = NaN"

fun f64_add :: "float64 \<Rightarrow> float64 \<Rightarrow> float64" where
  "f64_add (Fin a) (Fin b) = f64_round (a + b)"
| "f64_add NaN _ = NaN"
| "f64_add _ NaN = NaN"
| "f64_add PInf NInf = NaN"
| "f64_add NInf PInf = NaN"
| "f64_add PInf _ = PInf"
| "f64_add _ PInf = PInf"
| "f64_add NInf _ = NInf"
| "f64_add _ NInf = NInf"

definition f64_sub :: "float64 \<Rightarrow> float64 \<Rightarrow> float64" where
  "f64_sub a b = f64_add a (f64_neg b)"

fun f64_mul :: "float64 \<Rightarrow> float64 \<Rightarrow> float64" where
  "f64_mul (Fin a) (Fin b) = f64_round (a * b)"
| "f64_mul NaN _ = NaN"
| "f64_mul _ NaN = NaN"
| "f64_mul (Fin a) PInf = (if a = 0 then NaN else inf_signed (0 < a))"
| "f64_mul (Fin a) NInf = (if a = 0 then NaN else inf_signed (a < 0))"
| "f64_mul PInf (Fin b) = (if b = 0 then NaN else inf_signed (0 < b))"
| "f64_mul NInf (Fin b) = (if b = 0 then NaN else inf_signed (b < 0))"
| "f64_mul PInf PInf = PInf"
| "f64_mul NInf NInf = PInf"
| "f64_mul PInf NInf = NInf"
| "f64_mul NInf PInf = NInf"

fun f64_div :: "float64 \<Rightarrow> float64 \<Rightarrow> float64" where
  "f64_div (Fin a) (Fin b) =
     (if b \<noteq> 0 then f64_round (a / b)
      else if a = 0 then NaN
      else inf_signed (0 < a))"
| "f64_div NaN _ = NaN"
| "f64_div _ NaN = NaN"
| "f64_div (Fin a) PInf = Fin 0"
| "f64_div (Fin a) NInf = Fin 0"
| "f64_div PInf (Fin b) = inf_signed (0 \<le> b)"
| "f64_div NInf (Fin b) = inf_signed (b < 0)"
| "f64_div PInf PInf = NaN"
| "f64_div PInf NInf = NaN"
| "f64_div NInf PInf = NaN"
| "f64_div NInf NInf = NaN"

text \<open>\<^verbatim>\<open>math.Sqrt\<close>, correctly rounded: NaN below zero, \<open>+\<infinity>\<close> at \<open>+\<infinity>\<close>.\<close>

fun f64_sqrt :: "float64 \<Rightarrow> float64" where
  "f64_sqrt (Fin a) = (if a < 0 then NaN else f64_round (sqrt a))"
| "f64_sqrt PInf = PInf"
| "f64_sqrt NInf = NaN"
| "f64_sqrt NaN = NaN"

text \<open>Go's \<^verbatim>\<open>a > b\<close>: false whenever an operand is NaN.\<close>

fun f64_gt :: "float64 \<Rightarrow> float64 \<Rightarrow> bool" where
  "f64_gt (Fin a) (Fin b) = (b < a)"
| "f64_gt NaN _ = False"
| "f64_gt _ NaN = False"
| "f64_gt PInf PInf = False"
| "f64_gt PInf _ = True"
| "f64_gt _ PInf = False"
| "f64_gt NInf _ = False"
| "f64_gt _ NInf = True"

text \<open>Go's \<^verbatim>\<open>a != b\<close>: true whenever an operand is NaN.\<close>

fun f64_ne :: "float64 \<Rightarrow> float64 \<Rightarrow> bool" where
  "f64_ne NaN _ = True"
| "f64_ne _ NaN = True"
| "f64_ne a b = (a \<noteq> b)"

text \<open>The conversion \<^verbatim>\<open>float64(n)\<close> of a length.\<close>

definition f64_of_nat :: "nat \<Rightarrow> float64" where
  "f64_of_nat n = f64_round (real n)"

definition is_finite :: "float64 \<Rightarrow> bool" where
  "is_finite x = (case x of Fin _ \<Rightarrow> True | _ \<Rightarrow> False)"

text \<open>A value that a \<^verbatim>\<open>float64\<close> variable can hold.\<close>

definition f64_ok :: "float64 \<Rightarrow> bool" where
  "f64_ok x = (case x of Fin r \<Rightarrow> is_f64 r | _ \<Rightarrow> True)"

text \<open>A running total \<^verbatim>\<open>var total float64; for _, v := range xs { total += v }\<close>.\<close>

fun f64_accum :: "float64 \<Rightarrow> float64 list \<Rightarrow> float64" where
  "f64_accum acc [] = acc"
| "f64_accum acc (v # vs) = f64_accum (f64_add acc v) vs"

section \<open>Errors\<close>

text \<open>
  Every panic of the program and of the library calls it makes is a value of this type:
  the three messages of \<^verbatim>\<open>Merge\<close>'s checks, its column check (whose message is
  \<^verbatim>\<open>tnarg\<close>), the panics of \<^verbatim>\<open>gonum/mat\<close> and \<^verbatim>\<open>gonum/stat\<close>, and the Go runtime's
  index check.
\<close>

datatype error =
    MergeTooFewSets
  | MergeLengthMismatch
  | MergeWeightSum
  | MergeColumns
  | ErrZeroLength
  | ErrShape
  | ErrAccess
  | ErrRowLength
  | StatLengthMismatch
  | IndexOutOfRange

section \<open>The library calls\<close>

subsection \<open>\<^verbatim>\<open>gonum/stat\<close>\<close>

text \<open>
  \<^verbatim>\<open>stat.MeanStdDev(x, weights)\<close> belongs to the gonum library, which is not among
  the sources of the repository. The model follows the library's documentation and its
  two-pass algorithm: the function ``returns the sample mean and unbiased standard
  deviation'', that is, the square root of
  \<open>\<Sum> w\<^sub>i (x\<^sub>i - mean)\<^sup>2 / (\<Sum> w\<^sub>i - 1)\<close>, with all weights 1 when \<^verbatim>\<open>weights\<close> is
  \<^verbatim>\<open>nil\<close>. (The population variant of the library is the separate function
  \<^verbatim>\<open>PopMeanStdDev\<close>, which the program does not call.) The weighted mean is
  \<open>\<Sum> w\<^sub>i x\<^sub>i / \<Sum> w\<^sub>i\<close>, and it panics when the two slices differ in length.
\<close>

definition floats_Sum :: "float64 list \<Rightarrow> float64" where
  "floats_Sum x = f64_accum (Fin 0) x"

fun mean_loop :: "float64 list \<Rightarrow> float64 list \<Rightarrow> float64 \<times> float64 \<Rightarrow> float64 \<times> float64" where
  "mean_loop (w # ws) (v # vs) (sumValues, sumWeights) =
     mean_loop ws vs (f64_add sumValues (f64_mul w v), f64_add sumWeights w)"
| "mean_loop _ _ acc = acc"

definition stat_Mean :: "float64 list \<Rightarrow> float64 list option \<Rightarrow> error + float64" where
  "stat_Mean x weights =
     (case weights of
        None \<Rightarrow> Inr (f64_div (floats_Sum x) (f64_of_nat (length x)))
      | Some ws \<Rightarrow>
          if length x \<noteq> length ws then Inl StatLengthMismatch
          else (case mean_loop ws x (Fin 0, Fin 0) of
                  (sumValues, sumWeights) \<Rightarrow> Inr (f64_div sumValues sumWeights)))"

text \<open>The loop of the unweighted variance: \<open>ss\<close> and \<open>compensation\<close>.\<close>

fun var_loop :: "float64 \<Rightarrow> float64 list \<Rightarrow> float64 \<times> float64 \<Rightarrow> float64 \<times> float64" where
  "var_loop mean [] acc = acc"
| "var_loop mean (v # vs) (ss, compensation) =
     (let d = f64_sub v mean
      in var_loop mean vs (f64_add ss (f64_mul d d), f64_add compensation d))"

text \<open>The loop of the weighted variance: \<open>ss\<close>, \<open>compensation\<close> and \<open>sumWeights\<close>.\<close>

fun wvar_loop ::
  "float64 \<Rightarrow> float64 list \<Rightarrow> float64 list \<Rightarrow> float64 \<times> float64 \<times> float64
     \<Rightarrow> float64 \<times> float64 \<times> float64" where
  "wvar_loop mean (w # ws) (v # vs) (ss, compensation, sumWeights) =
     (let d = f64_sub v mean; wd = f64_mul w d
      in wvar_loop mean ws vs
           (f64_add ss (f64_mul wd d), f64_add compensation wd, f64_add sumWeights w))"
| "wvar_loop mean _ _ acc = acc"

definition stat_MeanVariance ::
  "float64 list \<Rightarrow> float64 list option \<Rightarrow> error + (float64 \<times> float64)" where
  "stat_MeanVariance x weights =
     (case stat_Mean x weights of
        Inl e \<Rightarrow> Inl e
      | Inr mean \<Rightarrow>
          (case weights of
             None \<Rightarrow>
               (case var_loop mean x (Fin 0, Fin 0) of
                  (ss, compensation) \<Rightarrow>
                    let n = f64_of_nat (length x);
                        unnormalised = f64_sub ss (f64_div (f64_mul compensation compensation) n)
                    in Inr (mean, f64_div unnormalised (f64_sub n (Fin 1))))
           | Some ws \<Rightarrow>
               (case wvar_loop mean ws x (Fin 0, Fin 0, Fin 0) of
                  (ss, compensation, sumWeights) \<Rightarrow>
                    let unnormalised =
                          f64_sub ss (f64_div (f64_mul compensation compensation) sumWeights)
                    in Inr (mean, f64_div unnormalised (f64_sub sumWeights (Fin 1))))))"

definition stat_MeanStdDev ::
  "float64 list \<Rightarrow> float64 list option \<Rightarrow> error + (float64 \<times> float64)" where
  "stat_MeanStdDev x weights =
     (case stat_MeanVariance x weights of
        Inl e \<Rightarrow> Inl e
      | Inr (mean, variance) \<Rightarrow> Inr (mean, f64_sqrt variance))"

subsection \<open>\<^verbatim>\<open>gonum/mat\<close>\<close>

text \<open>
  A \<^verbatim>\<open>mat.Dense\<close> of the gonum library is modelled by its column count and the
  list of its rows; in a matrix the library can build, every row has as many entries as
  there are columns. As the library documents, \<^verbatim>\<open>NewDense\<close> panics when a dimension
  is zero and when the backing slice has not \<open>r * c\<close> entries, \<^verbatim>\<open>Row\<close>, \<^verbatim>\<open>Col\<close>
  and \<^verbatim>\<open>SetRow\<close> panic on an index out of bounds, and \<^verbatim>\<open>SetRow\<close> on a source whose
  length is not the number of columns.
\<close>

record Dense =
  dense_cols :: nat
  dense_rows :: "float64 list list"

definition wf_Dense :: "Dense \<Rightarrow> bool" where
  "wf_Dense m =
     (0 < dense_cols m \<and> dense_rows m \<noteq> [] \<and>
      list_all (\<lambda>row. length row = dense_cols m) (dense_rows m))"

definition NewDense :: "nat \<Rightarrow> nat \<Rightarrow> float64 list option \<Rightarrow> error + Dense" where
  "NewDense r c data =
     (if r = 0 \<or> c = 0 then Inl ErrZeroLength
      else (case data of
              None \<Rightarrow> Inr \<lparr>dense_cols = c, dense_rows = replicate r (replicate c (Fin 0))\<rparr>
            | Some d \<Rightarrow>
                if r * c \<noteq> length d then Inl ErrShape
                else Inr \<lparr>dense_cols = c,
                          dense_rows = map (\<lambda>i. take c (drop (i * c) d)) [0..<r]\<rparr>))"

definition Dims :: "Dense \<Rightarrow> nat \<times> nat" where
  "Dims m = (length (dense_rows m), dense_cols m)"

definition mat_Row :: "nat \<Rightarrow> Dense \<Rightarrow> error + float64 list" where
  "mat_Row i m = (if length (dense_rows m) \<le> i then Inl ErrAccess else Inr (dense_rows m ! i))"

definition mat_Col :: "nat \<Rightarrow> Dense \<Rightarrow> error + float64 list" where
  "mat_Col j m =
     (if dense_cols m \<le> j then Inl ErrAccess else Inr (map (\<lambda>row. row ! j) (dense_rows m)))"

definition SetRow :: "Dense \<Rightarrow> nat \<Rightarrow> float64 list \<Rightarrow> error + Dense" where
  "SetRow m i src =
     (if length (dense_rows m) \<le> i then Inl ErrAccess
      else if length src \<noteq> dense_cols m then Inl ErrRowLength
      else Inr (m\<lparr>dense_rows := (dense_rows m)[i := src]\<rparr>))"

subsection \<open>\<^verbatim>\<open>gonum/stat/distuv\<close>\<close>

text \<open>
  \<^verbatim>\<open>distuv.UnitNormal.CDF\<close> is \<open>erfc (- x / sqrt 2) / 2\<close>. The standard normal
  distribution function on the reals is a parameter \<open>Phi\<close> of the model, and the result
  of the library at a finite argument is taken to be its rounding; the special values go
  where \<^verbatim>\<open>math.Erfc\<close> sends them.
\<close>

definition UnitNormal_CDF :: "(real \<Rightarrow> real) \<Rightarrow> float64 \<Rightarrow> float64" where
  "UnitNormal_CDF Phi x =
     (case x of Fin a \<Rightarrow> f64_round (Phi a) | PInf \<Rightarrow> Fin 1 | NInf \<Rightarrow> Fin 0 | NaN \<Rightarrow> NaN)"

subsection \<open>\<^verbatim>\<open>sort.Slice\<close>\<close>

text \<open>
  \<^verbatim>\<open>sort.Slice\<close> promises a permutation ordered by \<^verbatim>\<open>less\<close> and no stability. On a
  slice of at most twelve elements Go runs an insertion sort: element \<open>i\<close> is swapped
  towards the front while it is \<^verbatim>\<open>less\<close> than its left neighbour. \<open>insert_back\<close> works
  on the sorted prefix in reverse (its last element first). What Go runs on a longer
  slice is a parameter \<open>long\<close> of the model.
\<close>

fun insert_back :: "('a \<Rightarrow> 'a \<Rightarrow> bool) \<Rightarrow> 'a \<Rightarrow> 'a list \<Rightarrow> 'a list" where
  "insert_back lt x [] = [x]"
| "insert_back lt x (y # ys) =
     (if lt x y then y # insert_back lt x ys else x # y # ys)"

definition insertion_sort :: "('a \<Rightarrow> 'a \<Rightarrow> bool) \<Rightarrow> 'a list \<Rightarrow> 'a list" where
  "insertion_sort lt xs = rev (foldl (\<lambda>sorted_rev x. insert_back lt x sorted_rev) [] xs)"

type_synonym 'a sorter = "('a \<Rightarrow> 'a \<Rightarrow> bool) \<Rightarrow> 'a list \<Rightarrow> 'a list"

definition sort_Slice :: "'a sorter \<Rightarrow> ('a \<Rightarrow> 'a \<Rightarrow> bool) \<Rightarrow> 'a list \<Rightarrow> 'a list" where
  "sort_Slice long lt xs = (if length xs \<le> 12 then insertion_sort lt xs else long lt xs)"

text \<open>A \<^verbatim>\<open>for\<close> loop that builds one result per element and stops at the first panic.\<close>

fun collect :: "('a \<Rightarrow> error + 'b) \<Rightarrow> 'a list \<Rightarrow> error + 'b list" where
  "collect f [] = Inr []"
| "collect f (x # xs) =
     (case f x of
        Inl e \<Rightarrow> Inl e
      | Inr y \<Rightarrow> (case collect f xs of Inl e \<Rightarrow> Inl e | Inr ys \<Rightarrow> Inr (y # ys)))"

section \<open>The program's data\<close>

record HighSchool =
  School_Name :: string
  URL :: string
  USNews :: int
  MathProficiency :: float64
  ReadingProficiency :: float64
  GraduationRate :: float64
  CollegeReadiness :: float64

record RealEstate =
  SampleURL :: string
  MarketValue :: int
  AssessedValue :: int

record Taxes =
  Taxes_Property :: float64
  Sales :: float64
  Income :: float64

record Crime =
  Violent :: float64
  Crime_Property :: float64

record Climate =
  SunnyDays :: float64
  RainInches :: float64
  SnowInches :: float64

record Family =
  MilesToMargaret :: float64
  MilesToNich :: float64
  MilesToPeggy :: float64
  MilesToRyan :: float64
  MultipleSuites :: float64

record Livability =
  Politics :: float64
  Culture :: float64
  Running :: float64
  WalkScore :: float64
  MilesToAirport :: float64

record City =
  Name :: string
  Education :: HighSchool
  City_RealEstate :: RealEstate
  City_Taxes :: Taxes
  City_Crime :: Crime
  City_Climate :: Climate
  City_Family :: Family
  City_Livability :: Livability

text \<open>
  A \<^verbatim>\<open>ScoreSet\<close>. The empty list of row weights stands for the \<^verbatim>\<open>nil\<close> slice: the
  program builds score sets with \<^verbatim>\<open>NewScoreSet\<close> and \<^verbatim>\<open>Merge\<close> only, and there an
  empty \<^verbatim>\<open>rowWeights\<close> is the \<^verbatim>\<open>nil\<close> that nothing was appended to.
\<close>

record ScoreSet =
  columnNames :: "string list"
  rowNames :: "string list"
  rowWeights :: "float64 list"
  scores :: Dense

type_synonym ScoreFunc = "City \<Rightarrow> float64"

datatype ScoreGoal = BIGGER | SMALLER

record scoredCity =
  scored_Name :: string
  Score :: float64

text \<open>The invariant of the data model: one label and one weight per row of the matrix,
  one column name per column.\<close>

definition wf_ScoreSet :: "ScoreSet \<Rightarrow> bool" where
  "wf_ScoreSet s =
     (wf_Dense (scores s) \<and>
      length (columnNames s) = dense_cols (scores s) \<and>
      length (rowNames s) = length (dense_rows (scores s)) \<and>
      length (rowWeights s) = length (dense_rows (scores s)))"

section \<open>\<^verbatim>\<open>NewScoreSet\<close>\<close>

text \<open>The body of the normalising loop: one raw value to its stored value.\<close>

definition normalize :: "ScoreGoal \<Rightarrow> float64 \<Rightarrow> float64 \<Rightarrow> float64 \<Rightarrow> float64" where
  "normalize better mu sigma v =
     (let val = f64_div (f64_sub v mu) sigma
      in if SMALLER = better then f64_mul val (Fin (- 1)) else val)"

definition NewScoreSet :: "string \<Rightarrow> City list \<Rightarrow> ScoreGoal \<Rightarrow> ScoreFunc \<Rightarrow> error + ScoreSet" where
  "NewScoreSet axis cities better f =
     (let row = map f cities
      in case stat_MeanStdDev row None of
           Inl e \<Rightarrow> Inl e
         | Inr (mu, sigma) \<Rightarrow>
             (case NewDense 1 (length cities) (Some (map (normalize better mu sigma) row)) of
                Inl e \<Rightarrow> Inl e
              | Inr m \<Rightarrow>
                  Inr \<lparr>columnNames = map Name cities,
                       rowNames = [axis],
                       rowWeights = [Fin 1],
                       scores = m\<rparr>))"

section \<open>\<^verbatim>\<open>Print\<close>\<close>

text \<open>
  \<^verbatim>\<open>Print\<close> writes to the log; the model returns what it writes, unformatted: the row
  labels, the matrix, for every row its display weight, its label and its ranked list,
  and the final ranked list.
\<close>

record axisReport =
  axis_percent :: float64
  axis_name :: string
  axis_scored :: "scoredCity list"

record report =
  report_rowNames :: "string list"
  report_data :: Dense
  report_axes :: "axisReport list"
  report_final :: "scoredCity list"

definition by_score :: "scoredCity \<Rightarrow> scoredCity \<Rightarrow> bool" where
  "by_score a b = f64_gt (Score a) (Score b)"

definition percentile :: "(real \<Rightarrow> real) \<Rightarrow> float64 \<Rightarrow> float64" where
  "percentile Phi z = f64_mul (Fin 100) (UnitNormal_CDF Phi z)"

text \<open>The loop over the columns of one row; \<^verbatim>\<open>row[j]\<close> panics past the end of the row.\<close>

definition score_row :: "(real \<Rightarrow> real) \<Rightarrow> string list \<Rightarrow> float64 list \<Rightarrow> error + scoredCity list" where
  "score_row Phi names row =
     collect (\<lambda>j. if length row \<le> j then Inl IndexOutOfRange
                  else Inr \<lparr>scored_Name = names ! j, Score = percentile Phi (row ! j)\<rparr>)
       [0..<length names]"

definition print_axis ::
  "scoredCity sorter \<Rightarrow> (real \<Rightarrow> real) \<Rightarrow> ScoreSet \<Rightarrow> nat \<Rightarrow> error + axisReport" where
  "print_axis long Phi sset i =
     (if length (rowWeights sset) \<le> i then Inl IndexOutOfRange
      else (case mat_Row i (scores sset) of
              Inl e \<Rightarrow> Inl e
            | Inr row \<Rightarrow>
                (case score_row Phi (columnNames sset) row of
                   Inl e \<Rightarrow> Inl e
                 | Inr scored \<Rightarrow>
                     Inr \<lparr>axis_percent = f64_mul (Fin 100) (rowWeights sset ! i),
                          axis_name = rowNames sset ! i,
                          axis_scored = sort_Slice long by_score scored\<rparr>)))"

text \<open>The slice of row weights as \<^verbatim>\<open>stat.MeanStdDev\<close> receives it.\<close>

definition weights_arg :: "float64 list \<Rightarrow> float64 list option" where
  "weights_arg ws = (if ws = [] then None else Some ws)"

definition final_score :: "(real \<Rightarrow> real) \<Rightarrow> ScoreSet \<Rightarrow> nat \<Rightarrow> error + scoredCity" where
  "final_score Phi sset j =
     (case mat_Col j (scores sset) of
        Inl e \<Rightarrow> Inl e
      | Inr col \<Rightarrow>
          (case stat_MeanStdDev col (weights_arg (rowWeights sset)) of
             Inl e \<Rightarrow> Inl e
           | Inr (mu, _) \<Rightarrow>
               Inr \<lparr>scored_Name = columnNames sset ! j, Score = percentile Phi mu\<rparr>))"

definition Print_final ::
  "scoredCity sorter \<Rightarrow> (real \<Rightarrow> real) \<Rightarrow> ScoreSet \<Rightarrow> error + scoredCity list" where
  "Print_final long Phi sset =
     (case collect (final_score Phi sset) [0..<length (columnNames sset)] of
        Inl e \<Rightarrow> Inl e
      | Inr scored \<Rightarrow> Inr (sort_Slice long by_score scored))"

definition Print :: "scoredCity sorter \<Rightarrow> (real \<Rightarrow> real) \<Rightarrow> ScoreSet \<Rightarrow> error + report" where
  "Print long Phi sset =
     (case collect (print_axis long Phi sset) [0..<length (rowNames sset)] of
        Inl e \<Rightarrow> Inl e
      | Inr axes \<Rightarrow>
          (case Print_final long Phi sset of
             Inl e \<Rightarrow> Inl e
           | Inr final \<Rightarrow>
               Inr \<lparr>report_rowNames = rowNames sset,
                    report_data = scores sset,
                    report_axes = axes,
                    report_final = final\<rparr>))"

section \<open>\<^verbatim>\<open>Merge\<close>\<close>

text \<open>The checks on the weight vector; \<^verbatim>\<open>nil\<close> is \<open>None\<close>.\<close>

definition check_weights :: "nat \<Rightarrow> float64 list option \<Rightarrow> error option" where
  "check_weights n weights =
     (case weights of
        None \<Rightarrow> None
      | Some ws \<Rightarrow>
          if n \<noteq> length ws then Some MergeLengthMismatch
          else if f64_ne (f64_accum (Fin 0) ws) (Fin 1) then Some MergeWeightSum
          else None)"

text \<open>The inner loop over the row weights of set \<open>i\<close>; \<^verbatim>\<open>weights[i]\<close> is read once per
  row weight.\<close>

definition scaled_rowWeights ::
  "nat \<Rightarrow> float64 list option \<Rightarrow> nat \<Rightarrow> float64 list \<Rightarrow> error + float64 list" where
  "scaled_rowWeights n weights i rws =
     (case weights of
        None \<Rightarrow> Inr (map (\<lambda>rowWeight. f64_div rowWeight (f64_of_nat n)) rws)
      | Some ws \<Rightarrow>
          if rws = [] then Inr []
          else if length ws \<le> i then Inl IndexOutOfRange
          else Inr (map (\<lambda>rowWeight. f64_mul rowWeight (ws ! i)) rws))"

text \<open>The first loop over the sets: the merged row weights, the column check, the row
  count.\<close>

fun merge_weights ::
  "nat \<Rightarrow> float64 list option \<Rightarrow> nat \<Rightarrow> nat \<Rightarrow> ScoreSet list \<Rightarrow> float64 list \<times> nat
     \<Rightarrow> error + (float64 list \<times> nat)" where
  "merge_weights n weights ncolumns i [] acc = Inr acc"
| "merge_weights n weights ncolumns i (s # rest) (mergedWeights, rows) =
     (case scaled_rowWeights n weights i (rowWeights s) of
        Inl e \<Rightarrow> Inl e
      | Inr scaled \<Rightarrow>
          (case Dims (scores s) of
             (r, c) \<Rightarrow>
               if c \<noteq> ncolumns then Inl MergeColumns
               else merge_weights n weights ncolumns (i + 1) rest
                      (mergedWeights @ scaled, rows + r)))"

text \<open>The second loop: the rows \<open>j\<close> of one set are copied, label and values, to row
  \<open>rout\<close> of the merged matrix.\<close>

fun copy_rows ::
  "ScoreSet \<Rightarrow> nat list \<Rightarrow> string list \<times> Dense \<times> nat \<Rightarrow> error + (string list \<times> Dense \<times> nat)" where
  "copy_rows s [] st = Inr st"
| "copy_rows s (j # js) (names, m, rout) =
     (if length (rowNames s) \<le> j then Inl IndexOutOfRange
      else (case mat_Row j (scores s) of
              Inl e \<Rightarrow> Inl e
            | Inr row \<Rightarrow>
                (case SetRow m rout row of
                   Inl e \<Rightarrow> Inl e
                 | Inr m' \<Rightarrow> copy_rows s js (names @ [rowNames s ! j], m', rout + 1))))"

fun merge_rows ::
  "ScoreSet list \<Rightarrow> string list \<times> Dense \<times> nat \<Rightarrow> error + (string list \<times> Dense \<times> nat)" where
  "merge_rows [] st = Inr st"
| "merge_rows (s # rest) st =
     (case Dims (scores s) of
        (r, _) \<Rightarrow>
          (case copy_rows s [0..<r] st of
             Inl e \<Rightarrow> Inl e
           | Inr st' \<Rightarrow> merge_rows rest st'))"

definition Merge :: "ScoreSet list \<Rightarrow> float64 list option \<Rightarrow> error + ScoreSet" where
  "Merge sets weights =
     (if length sets < 2 then Inl MergeTooFewSets
      else (case check_weights (length sets) weights of
              Some e \<Rightarrow> Inl e
            | None \<Rightarrow>
                (let columns = columnNames (sets ! 0)
                 in case merge_weights (length sets) weights (length columns) 0 sets ([], 0) of
                      Inl e \<Rightarrow> Inl e
                    | Inr (mergedWeights, rows) \<Rightarrow>
                        (case NewDense rows (length columns) None of
                           Inl e \<Rightarrow> Inl e
                         | Inr m0 \<Rightarrow>
                             (case merge_rows sets ([], m0, 0) of
                                Inl e \<Rightarrow> Inl e
                              | Inr (names, m, rout) \<Rightarrow>
                                  Inr \<lparr>columnNames = columns,
                                       rowNames = names,
                                       rowWeights = mergedWeights,
                                       scores = m\<rparr>)))))"

section \<open>Notions of the specification\<close>

text \<open>The real number a finite value stands for.\<close>

definition fin_val :: "float64 \<Rightarrow> real" where
  "fin_val x = (case x of Fin a \<Rightarrow> a | _ \<Rightarrow> 0)"

text \<open>Mean, sample standard deviation (divisor \<open>n - 1\<close>) and population standard
  deviation (divisor \<open>n\<close>) of a list of reals.\<close>

definition real_mean :: "real list \<Rightarrow> real" where
  "real_mean xs = sum_list xs / real (length xs)"

definition sum_sq_dev :: "real list \<Rightarrow> real" where
  "sum_sq_dev xs = (\<Sum>x\<leftarrow>xs. (x - real_mean xs)\<^sup>2)"

definition sample_sd :: "real list \<Rightarrow> real" where
  "sample_sd xs = sqrt (sum_sq_dev xs / (real (length xs) - 1))"

definition population_sd :: "real list \<Rightarrow> real" where
  "population_sd xs = sqrt (sum_sq_dev xs / real (length xs))"

text \<open>The normalisation as the specification words it: population mean and population
  standard deviation.\<close>

definition spec_zscores :: "real list \<Rightarrow> real list" where
  "spec_zscores xs = map (\<lambda>x. (x - real_mean xs) / population_sd xs) xs"

text \<open>The sign that the goal gives a z-score.\<close>

definition goal_sign :: "ScoreGoal \<Rightarrow> real" where
  "goal_sign better = (if SMALLER = better then - 1 else 1)"

text \<open>A running total from \<open>a\<close> over \<open>xs\<close> in which no addition rounds: every partial
  sum is a value of the format.\<close>

fun exact_sums :: "real \<Rightarrow> real list \<Rightarrow> bool" where
  "exact_sums a [] = True"
| "exact_sums a (x # xs) = (is_f64 (a + x) \<and> exact_sums (a + x) xs)"

text \<open>
  No operation of the normalisation of the raw values \<open>xs\<close> rounds: the sum and the
  mean, the deviations from the mean, their squares and the two running totals of the
  variance, the division by \<open>n - 1\<close>, the square root and the quotients are all values
  of the format.
\<close>

definition zscore_exact :: "real list \<Rightarrow> bool" where
  "zscore_exact xs =
     (let n = real (length xs);
          mu = real_mean xs;
          ds = map (\<lambda>x. x - mu) xs
      in exact_sums 0 xs \<and> is_f64 n \<and> is_f64 mu \<and>
         list_all is_f64 ds \<and> list_all (\<lambda>d. is_f64 (d * d)) ds \<and>
         exact_sums 0 (map (\<lambda>d. d * d) ds) \<and> exact_sums 0 ds \<and>
         is_f64 (n - 1) \<and> is_f64 (sum_sq_dev xs / (n - 1)) \<and> is_f64 (sample_sd xs) \<and>
         list_all (\<lambda>d. is_f64 (d / sample_sd xs)) ds)"

text \<open>The weighted mean \<open>\<Sum> w\<^sub>i x\<^sub>i / \<Sum> w\<^sub>i\<close> in \<^verbatim>\<open>float64\<close> arithmetic, both sums
  taken in the order of the lists.\<close>

definition f64_weighted_mean :: "float64 list \<Rightarrow> float64 list \<Rightarrow> float64" where
  "f64_weighted_mean ws xs =
     f64_div (f64_accum (Fin 0) (map (\<lambda>(w, x). f64_mul w x) (zip ws xs)))
             (f64_accum (Fin 0) ws)"

text \<open>The composite score of column \<open>j\<close> as the specification words it: the name of
  the column with 100 times the distribution function at the weighted mean, by the row
  weights, of the entries of the column.\<close>

definition composite_score :: "(real \<Rightarrow> real) \<Rightarrow> ScoreSet \<Rightarrow> nat \<Rightarrow> scoredCity" where
  "composite_score Phi s j =
     \<lparr>scored_Name = columnNames s ! j,
      Score = f64_mul (Fin 100)
                (UnitNormal_CDF Phi
                   (f64_weighted_mean (rowWeights s)
                      (map (\<lambda>row. row ! j) (dense_rows (scores s)))))\<rparr>"

text \<open>A list of scored cities in descending order of score, as Go compares: no element
  is greater than an element before it.\<close>

definition descending :: "scoredCity list \<Rightarrow> bool" where
  "descending xs = sorted_wrt (\<lambda>a b. \<not> f64_gt (Score b) (Score a)) xs"

text \<open>What is assumed of the sort of a long slice: it permutes, and it puts scores
  that are all comparable (none is NaN) in descending order.\<close>

definition sorts_scores :: "scoredCity sorter \<Rightarrow> bool" where
  "sorts_scores long =
     (\<forall>xs. mset (long by_score xs) = mset xs \<and>
           ((\<forall>a\<in>set xs. Score a \<noteq> NaN) \<longrightarrow> descending (long by_score xs)))"

text \<open>The row weights of a merge as the specification words them: every row weight of
  a set times the weight of the set, or divided by the number of sets when no weights
  are given, in the order of the sets.\<close>

definition merged_rowWeights :: "nat \<Rightarrow> float64 list option \<Rightarrow> ScoreSet list \<Rightarrow> float64 list" where
  "merged_rowWeights n weights sets =
     (case weights of
        None \<Rightarrow> concat (map (\<lambda>s. map (\<lambda>rw. f64_div rw (f64_of_nat n)) (rowWeights s)) sets)
      | Some ws \<Rightarrow> concat (map (\<lambda>(s, w). map (\<lambda>rw. f64_mul rw w) (rowWeights s)) (zip sets ws)))"

section \<open>Sample data\<close>

text \<open>A city with a name and a culture score, every other field zero or empty, and the
  extractor of its culture score (the one of \<^verbatim>\<open>ScoreLivability\<close>).\<close>

definition sample_city :: "string \<Rightarrow> float64 \<Rightarrow> City" where
  "sample_city name culture =
     \<lparr>Name = name,
      Education = \<lparr>School_Name = [], URL = [], USNews = 0, MathProficiency = Fin 0,
                   ReadingProficiency = Fin 0, GraduationRate = Fin 0,
                   CollegeReadiness = Fin 0\<rparr>,
      City_RealEstate = \<lparr>SampleURL = [], MarketValue = 0, AssessedValue = 0\<rparr>,
      City_Taxes = \<lparr>Taxes_Property = Fin 0, Sales = Fin 0, Income = Fin 0\<rparr>,
      City_Crime = \<lparr>Violent = Fin 0, Crime_Property = Fin 0\<rparr>,
      City_Climate = \<lparr>SunnyDays = Fin 0, RainInches = Fin 0, SnowInches = Fin 0\<rparr>,
      City_Family = \<lparr>MilesToMargaret = Fin 0, MilesToNich = Fin 0, MilesToPeggy = Fin 0,
                     MilesToRyan = Fin 0, MultipleSuites = Fin 0\<rparr>,
      City_Livability = \<lparr>Politics = Fin 0, Culture = culture, Running = Fin 0,
                         WalkScore = Fin 0, MilesToAirport = Fin 0\<rparr>\<rparr>"

definition culture_of :: ScoreFunc where
  "culture_of city = Culture (City_Livability city)"

text \<open>A stand-in for the standard normal distribution function in examples: it
  increases from 0 to 1 and is \<open>1/2\<close> at 0.\<close>

definition sample_Phi :: "real \<Rightarrow> real" where
  "sample_Phi x = (1 + x / (1 + \<bar>x\<bar>)) / 2"

text \<open>A score set of one row, laid out as \<^verbatim>\<open>NewScoreSet\<close> lays it out.\<close>

definition leaf_row :: "string list \<Rightarrow> string \<Rightarrow> float64 list \<Rightarrow> ScoreSet" where
  "leaf_row names axis row =
     \<lparr>columnNames = names, rowNames = [axis], rowWeights = [Fin 1],
      scores = \<lparr>dense_cols = length names, dense_rows = [row]\<rparr>\<rparr>"

text \<open>The values of the literals 0.7, 0.3 and 0.4.\<close>

definition d07 :: real where
  "d07 = 6305039478318694 / 2 ^ 53"

definition d03 :: real where
  "d03 = 5404319552844595 / 2 ^ 54"

definition d04 :: real where
  "d04 = 7205759403792794 / 2 ^ 54"

section \<open>Rounding\<close>

lemma rne_of_int [simp]: "rne (of_int n) = n"
  by (simp add: rne_def)

lemma rne_minus: "rne (- y) = - rne y"
proof (cases "y = of_int \<lfloor>y\<rfloor>")
  case True
  then have "rne (- y) = rne (of_int (- \<lfloor>y\<rfloor>))" by simp
  also have "\<dots> = - \<lfloor>y\<rfloor>" by (rule rne_of_int)
  also have "\<dots> = - rne (of_int \<lfloor>y\<rfloor>)" by simp
  finally show ?thesis using True by simp
next
  case False
  from False have "of_int \<lfloor>y\<rfloor> \<noteq> y" by (rule not_sym)
  with of_int_floor_le[of y] have lo: "of_int \<lfloor>y\<rfloor> < y" by (rule le_neq_trans)
  have hi: "y < of_int \<lfloor>y\<rfloor> + 1" by linarith
  have c: "\<lfloor>- y\<rfloor> = - \<lfloor>y\<rfloor> - 1"
  proof (rule floor_unique)
    show "of_int (- \<lfloor>y\<rfloor> - 1) \<le> - y" by (simp, linarith)
    show "- y < of_int (- \<lfloor>y\<rfloor> - 1) + 1" using lo by simp
  qed
  show ?thesis
    unfolding rne_def Let_def c using lo hi by (auto simp: field_simps)
qed

lemma rne_close: "\<bar>of_int (rne y) - y\<bar> \<le> 1 / 2"
proof -
  have "of_int \<lfloor>y\<rfloor> \<le> y" "y < of_int \<lfloor>y\<rfloor> + 1" by linarith+
  then show ?thesis unfolding rne_def Let_def by (auto simp: abs_le_iff)
qed

lemma rne_mono_ge: "of_int a \<le> y \<Longrightarrow> a \<le> rne y"
proof -
  assume "of_int a \<le> y"
  then have "a \<le> \<lfloor>y\<rfloor>" by (simp add: le_floor_iff)
  then show ?thesis unfolding rne_def Let_def by auto
qed

lemma rne_mono_le: "y \<le> of_int b \<Longrightarrow> rne y \<le> b"
  using rne_mono_ge[of "- b" "- y"] by (simp add: rne_minus)

lemma two_powi_pos [simp]: "0 < (2::real) powi k"
  by (simp add: power_int_def)

lemma log2_less_powi:
  assumes "0 < x"
  shows "(\<lfloor>log 2 x\<rfloor> < k) = (x < 2 powi k)"
proof -
  have "(\<lfloor>log 2 x\<rfloor> < k) = (log 2 x < of_int k)" by (simp add: floor_less_iff)
  also have "\<dots> = (x < 2 powr (of_int k))" using assms by (simp add: log_less_iff)
  also have "2 powr (of_int k) = (2::real) powi k" by (simp add: powr_real_of_int')
  finally show ?thesis .
qed

lemma powi_le_log2:
  assumes "0 < x"
  shows "(k \<le> \<lfloor>log 2 x\<rfloor>) = (2 powi k \<le> x)"
  using log2_less_powi[OF assms, of k] by (auto simp: not_less[symmetric])

lemma f64_exponent_eq:
  assumes "2 powi e \<le> \<bar>x\<bar>" and "\<bar>x\<bar> < 2 powi (e + 1)" and "- 1022 \<le> e"
  shows "f64_exponent x = e"
proof -
  have pos: "0 < \<bar>x\<bar>" using assms(1) two_powi_pos[of e] by linarith
  have "e \<le> \<lfloor>log 2 \<bar>x\<bar>\<rfloor>" using assms(1) powi_le_log2[OF pos, of e] by blast
  moreover have "\<lfloor>log 2 \<bar>x\<bar>\<rfloor> < e + 1"
    using assms(2) log2_less_powi[OF pos, of "e + 1"] by blast
  ultimately have "\<lfloor>log 2 \<bar>x\<bar>\<rfloor> = e" by linarith
  with assms(3) show ?thesis by (simp add: f64_exponent_def)
qed

lemma f64_exponent_small:
  assumes "\<bar>x\<bar> < 2 powi (- 1022)" and "x \<noteq> 0"
  shows "f64_exponent x = - 1022"
proof -
  have pos: "0 < \<bar>x\<bar>" using assms(2) by simp
  have "\<lfloor>log 2 \<bar>x\<bar>\<rfloor> < - 1022"
    using assms(1) log2_less_powi[OF pos, of "- 1022"] by blast
  then show ?thesis unfolding f64_exponent_def by linarith
qed

lemma f64_exponent_ge: "- 1022 \<le> f64_exponent x"
  unfolding f64_exponent_def by linarith

lemma f64_exponent_upper:
  assumes "x \<noteq> 0"
  shows "\<bar>x\<bar> < 2 powi (f64_exponent x + 1)"
proof -
  have pos: "0 < \<bar>x\<bar>" using assms by simp
  have "\<lfloor>log 2 \<bar>x\<bar>\<rfloor> < f64_exponent x + 1" unfolding f64_exponent_def by linarith
  then show ?thesis using log2_less_powi[OF pos, of "f64_exponent x + 1"] by blast
qed

lemma f64_exponent_lower:
  assumes "x \<noteq> 0" and "- 1022 < f64_exponent x"
  shows "2 powi (f64_exponent x) \<le> \<bar>x\<bar>"
proof -
  have pos: "0 < \<bar>x\<bar>" using assms(1) by simp
  have "f64_exponent x \<le> \<lfloor>log 2 \<bar>x\<bar>\<rfloor>" using assms(2) unfolding f64_exponent_def by linarith
  then show ?thesis using powi_le_log2[OF pos, of "f64_exponent x"] by blast
qed

lemma f64_exponent_le:
  assumes "x \<noteq> 0" and "\<bar>x\<bar> < 2 powi (j + 1)" and "- 1022 \<le> j"
  shows "f64_exponent x \<le> j"
proof -
  have pos: "0 < \<bar>x\<bar>" using assms(1) by simp
  have "\<lfloor>log 2 \<bar>x\<bar>\<rfloor> < j + 1"
    using assms(2) log2_less_powi[OF pos, of "j + 1"] by blast
  with assms(3) show ?thesis unfolding f64_exponent_def by linarith
qed

lemma f64_exponent_minus [simp]: "f64_exponent (- x) = f64_exponent x"
  by (simp add: f64_exponent_def)

lemma f64_round_minus: "f64_round (- x) = f64_neg (f64_round x)"
  by (auto simp: f64_round_def Let_def rne_minus inf_signed_def)

text \<open>A value \<open>m * 2^k\<close> with a mantissa of at most 53 bits, an exponent of at least
  \<open>-1074\<close> and a magnitude below \<open>2^1024\<close> is left as it is.\<close>

lemma f64_round_representable:
  assumes m: "\<bar>m\<bar> < 2 ^ 53" and k: "- 1074 \<le> k"
    and x: "x = of_int m * 2 powi k" and b: "\<bar>x\<bar> < f64_huge"
  shows "f64_round x = Fin x"
proof (cases "x = 0")
  case True
  then show ?thesis by (simp add: f64_round_def)
next
  case False
  let ?e = "f64_exponent x"
  have m': "\<bar>real_of_int m\<bar> < 2 powi 53"
  proof -
    from m have "real_of_int \<bar>m\<bar> < real_of_int (2 ^ 53)" by (simp only: of_int_less_iff)
    then show ?thesis by simp
  qed
  have "\<bar>x\<bar> = \<bar>real_of_int m\<bar> * 2 powi k" by (simp add: x abs_mult)
  also have "\<dots> < 2 powi 53 * 2 powi k"
    using m' by (rule mult_strict_right_mono) (rule two_powi_pos)
  also have "\<dots> = 2 powi (k + 52 + 1)"
  proof -
    have "(2::real) powi 53 * 2 powi k = 2 powi (53 + k)"
      by (rule power_int_add[symmetric]) simp
    also have "53 + k = k + 52 + 1" by simp
    finally show ?thesis .
  qed
  finally have "\<bar>x\<bar> < 2 powi (k + 52 + 1)" .
  from f64_exponent_le[OF False this] k have e: "?e - 52 \<le> k" by linarith
  define q :: real where "q = 2 powi (?e - 52)"
  have qpos: "0 < q" by (simp add: q_def)
  define j where "j = nat (k - (?e - 52))"
  have kj: "k = (?e - 52) + int j" using e by (simp add: j_def)
  have "(2::real) powi k = 2 powi ((?e - 52) + int j)" using kj by simp
  also have "\<dots> = q * 2 powi (int j)" unfolding q_def by (rule power_int_add) simp
  also have "\<dots> = q * 2 ^ j" by (simp only: power_int_of_nat)
  finally have pk: "(2::real) powi k = q * 2 ^ j" .
  have xq: "x = of_int (m * 2 ^ j) * q" unfolding x pk by simp
  have "x / q = of_int (m * 2 ^ j) * q / q" by (subst xq) (rule refl)
  also have "\<dots> = of_int (m * 2 ^ j)"
  proof -
    from qpos have "q \<noteq> 0" by simp
    then show ?thesis by (rule nonzero_mult_div_cancel_right)
  qed
  finally have "rne (x / q) = m * 2 ^ j" by (simp only: rne_of_int)
  then have "of_int (rne (x / q)) * q = x" by (simp only: xq[symmetric])
  with False b show ?thesis by (simp add: f64_round_def Let_def q_def)
qed

lemma rne_eqI:
  assumes "of_int n - 1 / 2 < y" and "y < of_int n + 1 / 2"
  shows "rne y = n"
proof -
  have f: "of_int \<lfloor>y\<rfloor> \<le> y" "y < of_int \<lfloor>y\<rfloor> + 1" by linarith+
  from assms f have "\<lfloor>y\<rfloor> = n \<or> \<lfloor>y\<rfloor> = n - 1" by linarith
  then show ?thesis
  proof
    assume "\<lfloor>y\<rfloor> = n"
    with assms show ?thesis unfolding rne_def Let_def by auto
  next
    assume "\<lfloor>y\<rfloor> = n - 1"
    with assms show ?thesis unfolding rne_def Let_def by auto
  qed
qed

lemma rne_tie:
  assumes "y = of_int n + 1 / 2"
  shows "rne y = (if even n then n else n + 1)"
proof -
  have "\<lfloor>y\<rfloor> = n" unfolding assms by (rule floor_unique) simp_all
  then show ?thesis unfolding rne_def Let_def assms by simp
qed

lemma f64_huge_gt: "\<bar>x\<bar> < 2 ^ 64 \<Longrightarrow> \<bar>x\<bar> < f64_huge"
proof -
  assume "\<bar>x\<bar> < 2 ^ 64"
  also have "(2::real) ^ 64 = 2 powi 64" by simp
  also have "\<dots> \<le> 2 powi 1024" by (rule power_int_increasing) simp_all
  finally show ?thesis by (simp only: f64_huge_def)
qed

lemma f64_round_0 [simp]: "f64_round 0 = Fin 0"
  by (simp add: f64_round_def)

lemma is_f64_of_int:
  assumes "\<bar>m\<bar> < 2 ^ 53"
  shows "f64_round (of_int m) = Fin (of_int m)"
proof (rule f64_round_representable[OF assms, of 0])
  show "of_int m = real_of_int m * 2 powi 0" by simp
  from assms have "real_of_int \<bar>m\<bar> < real_of_int (2 ^ 53)" by (simp only: of_int_less_iff)
  then have "\<bar>real_of_int m\<bar> < 2 ^ 64" by simp
  then show "\<bar>real_of_int m\<bar> < f64_huge" by (rule f64_huge_gt)
qed simp

lemma is_f64_dyadic:
  assumes "\<bar>m\<bar> < 2 ^ 53" and "j \<le> 1074"
  shows "f64_round (of_int m / 2 ^ j) = Fin (of_int m / 2 ^ j)"
proof (rule f64_round_representable[OF assms(1), of "- int j"])
  show "- 1074 \<le> - int j" using assms(2) by simp
  show "of_int m / 2 ^ j = real_of_int m * 2 powi (- int j)"
    by (simp add: power_int_minus field_simps)
  from assms(1) have "real_of_int \<bar>m\<bar> < real_of_int (2 ^ 53)" by (simp only: of_int_less_iff)
  then have "\<bar>real_of_int m\<bar> < 2 ^ 64" by simp
  moreover have "\<bar>real_of_int m / 2 ^ j\<bar> \<le> \<bar>real_of_int m\<bar>"
    by (simp add: abs_divide divide_le_eq_1 field_simps) (simp add: mult_le_cancel_left1)
  ultimately have "\<bar>real_of_int m / 2 ^ j\<bar> < 2 ^ 64" by linarith
  then show "\<bar>real_of_int m / 2 ^ j\<bar> < f64_huge" by (rule f64_huge_gt)
qed

text \<open>What rounding returns is left as it is by rounding.\<close>

lemma f64_round_idem:
  assumes "f64_round x = Fin r"
  shows "f64_round r = Fin r"
proof (cases "x = 0")
  case True
  with assms show ?thesis by simp
next
  case False
  define e where "e = f64_exponent x"
  define q :: real where "q = 2 powi (e - 52)"
  define n where "n = rne (x / q)"
  have qpos: "0 < q" by (simp add: q_def)
  from assms False have r: "r = of_int n * q" and b: "\<bar>r\<bar> < f64_huge"
    by (auto simp: f64_round_def Let_def e_def q_def n_def inf_signed_def split: if_splits)
  have "\<bar>x\<bar> < 2 powi (e + 1)" unfolding e_def by (rule f64_exponent_upper[OF False])
  also have "(2::real) powi (e + 1) = 2 powi (53 + (e - 52))"
    by (rule arg_cong[where f = "\<lambda>k. 2 powi k"]) simp
  also have "\<dots> = 2 powi 53 * q" unfolding q_def by (rule power_int_add) simp
  finally have "\<bar>x\<bar> < 2 powi 53 * q" .
  then have "\<bar>x\<bar> / q < 2 powi 53" using qpos by (simp add: pos_divide_less_eq)
  moreover have "\<bar>q\<bar> = q" using qpos by simp
  then have "\<bar>x / q\<bar> = \<bar>x\<bar> / q" by (simp only: abs_divide)
  ultimately have "\<bar>x / q\<bar> < 2 powi 53" by (simp only:)
  then have "\<bar>x / q\<bar> < 2 ^ 53" by simp
  then have xq: "- (2 ^ 53) \<le> x / q" "x / q \<le> 2 ^ 53" by linarith+
  have up: "n \<le> 2 ^ 53" unfolding n_def by (rule rne_mono_le) (use xq(2) in simp)
  have lo: "- (2 ^ 53) \<le> n" unfolding n_def by (rule rne_mono_ge) (use xq(1) in simp)
  have ek: "- 1074 \<le> e - 52" using f64_exponent_ge[of x] by (simp add: e_def)
  show ?thesis
  proof (cases "\<bar>n\<bar> < 2 ^ 53")
    case True
    show ?thesis by (rule f64_round_representable[OF True ek _ b]) (simp add: r q_def)
  next
    case False
    with up lo have n: "n = 2 ^ 53 \<or> n = - (2 ^ 53)" by linarith
    have q2: "2 * q = 2 powi (e - 51)"
    proof -
      have "(2::real) powi (e - 51) = 2 powi (1 + (e - 52))"
        by (rule arg_cong[where f = "\<lambda>k. 2 powi k"]) simp
      also have "\<dots> = 2 powi 1 * q" unfolding q_def by (rule power_int_add) simp
      finally show ?thesis by simp
    qed
    from n show ?thesis
    proof
      assume "n = 2 ^ 53"
      then have "r = of_int (2 ^ 52) * 2 powi (e - 51)" unfolding r q2[symmetric] by simp
      then show ?thesis
        by (intro f64_round_representable[of "2 ^ 52" "e - 51"]) (use ek b in simp_all)
    next
      assume "n = - (2 ^ 53)"
      then have "r = of_int (- (2 ^ 52)) * 2 powi (e - 51)" unfolding r q2[symmetric] by simp
      then show ?thesis
        by (intro f64_round_representable[of "- (2 ^ 52)" "e - 51"]) (use ek b in simp_all)
    qed
  qed
qed

lemma f64_round_eval:
  assumes "2 powi e \<le> \<bar>x\<bar>" and "\<bar>x\<bar> < 2 powi (e + 1)" and "- 1022 \<le> e"
    and "rne (x / 2 powi (e - 52)) = n"
    and "\<bar>of_int n * 2 powi (e - 52)\<bar> < f64_huge"
  shows "f64_round x = Fin (of_int n * 2 powi (e - 52))"
proof -
  have "0 < \<bar>x\<bar>" using assms(1) two_powi_pos[of e] by linarith
  then have "x \<noteq> 0" by simp
  moreover have "f64_exponent x = e" by (rule f64_exponent_eq[OF assms(1-3)])
  ultimately show ?thesis using assms(4,5) by (simp add: f64_round_def Let_def)
qed

section \<open>Values of the format\<close>

lemma is_f64_round: "is_f64 x \<Longrightarrow> f64_round x = Fin x"
  by (simp add: is_f64_def)

lemma is_f64_0 [simp]: "is_f64 0"
  by (simp add: is_f64_def)

lemma is_f64_minus [simp]: "is_f64 (- x) = is_f64 x"
  by (cases "f64_round x") (auto simp: is_f64_def f64_round_minus)

lemma is_f64_int: "\<bar>m\<bar> < 2 ^ 53 \<Longrightarrow> is_f64 (of_int m)"
  by (simp add: is_f64_def is_f64_of_int)

lemma is_f64_numeral: "numeral n < (2::int) ^ 53 \<Longrightarrow> is_f64 (numeral n)"
  using is_f64_int[of "numeral n"] by simp

lemma is_f64_1 [simp]: "is_f64 1"
  using is_f64_int[of 1] by simp

lemma is_f64_nat:
  assumes "n < 2 ^ 53"
  shows "is_f64 (real n)"
proof -
  from assms have "int n < int (2 ^ 53)" by (simp only: of_nat_less_iff)
  then have "\<bar>int n\<bar> < 2 ^ 53" by simp
  from is_f64_int[OF this] show ?thesis by simp
qed

lemma is_f64_frac: "\<bar>m\<bar> < 2 ^ 53 \<Longrightarrow> j \<le> 1074 \<Longrightarrow> is_f64 (of_int m / 2 ^ j)"
  by (simp add: is_f64_def is_f64_dyadic)

lemma f64_round_is_f64: "f64_round x = Fin r \<Longrightarrow> is_f64 r"
  by (simp add: is_f64_def f64_round_idem)

lemma f64_ok_simps [simp]:
  "f64_ok (Fin r) = is_f64 r" "f64_ok PInf" "f64_ok NInf" "f64_ok NaN"
  by (simp_all add: f64_ok_def)

lemma f64_ok_round [simp]: "f64_ok (f64_round x)"
  by (cases "f64_round x") (simp_all add: f64_round_is_f64)

lemma f64_ok_inf_signed [simp]: "f64_ok (inf_signed b)"
  by (simp add: inf_signed_def)

lemma f64_ok_add [simp]: "f64_ok (f64_add a b)"
  by (cases a; cases b) simp_all

lemma f64_ok_mul [simp]: "f64_ok (f64_mul a b)"
  by (cases a; cases b) simp_all

lemma f64_ok_div [simp]: "f64_ok (f64_div a b)"
  by (cases a; cases b) simp_all

lemma f64_ok_of_nat [simp]: "f64_ok (f64_of_nat n)"
  by (simp add: f64_of_nat_def)

text \<open>Multiplying a value of the format by \<open>-1\<close> or by 1 does not round.\<close>

lemma f64_mul_minus_one: "f64_ok v \<Longrightarrow> f64_mul v (Fin (- 1)) = f64_neg v"
  by (cases v) (simp_all add: inf_signed_def is_f64_round)

lemma f64_mul_one: "f64_ok v \<Longrightarrow> f64_mul (Fin 1) v = v"
  by (cases v) (simp_all add: inf_signed_def is_f64_round)

lemma exact_sums_accum:
  "exact_sums a xs \<Longrightarrow> f64_accum (Fin a) (map Fin xs) = Fin (a + sum_list xs)"
  by (induction xs arbitrary: a) (simp_all add: is_f64_round add.assoc)

lemma exact_sums_last: "exact_sums a xs \<Longrightarrow> is_f64 a \<Longrightarrow> is_f64 (a + sum_list xs)"
  by (induction xs arbitrary: a) (auto simp flip: add.assoc)

section \<open>Finite values and running totals\<close>

lemma f64_ne_one: "f64_ne x (Fin 1) = (x \<noteq> Fin 1)"
  by (cases x) simp_all

lemma f64_accum_append: "f64_accum a (xs @ ys) = f64_accum (f64_accum a xs) ys"
  by (induction xs arbitrary: a) simp_all

lemma f64_add_finite: "f64_add a b = Fin r \<Longrightarrow> \<exists>x y. a = Fin x \<and> b = Fin y"
  by (cases a; cases b) simp_all

lemma is_finite_simps [simp]:
  "is_finite (Fin a)" "\<not> is_finite PInf" "\<not> is_finite NInf" "\<not> is_finite NaN"
  by (simp_all add: is_finite_def)

lemma is_finite_iff: "is_finite x = (\<exists>r. x = Fin r)"
  by (cases x) simp_all

lemma f64_accum_finite:
  "f64_accum a xs = Fin r \<Longrightarrow> is_finite a \<and> list_all is_finite xs"
proof (induction xs arbitrary: a)
  case Nil
  then show ?case by simp
next
  case (Cons x xs)
  from Cons.prems have "f64_accum (f64_add a x) xs = Fin r" by simp
  from Cons.IH[OF this] have 1: "is_finite (f64_add a x)" and 2: "list_all is_finite xs" by auto
  from 1 obtain q where "f64_add a x = Fin q" by (auto simp: is_finite_iff)
  from f64_add_finite[OF this] 2 show ?case by auto
qed

section \<open>The errors of \<^verbatim>\<open>Merge\<close>\<close>

lemma scaled_rowWeights_errors:
  "scaled_rowWeights n w i rws = Inl e \<Longrightarrow> e = IndexOutOfRange"
  by (auto simp: scaled_rowWeights_def split: option.splits if_splits)

lemma merge_weights_errors:
  "merge_weights n w nc i rest acc = Inl e \<Longrightarrow> e = IndexOutOfRange \<or> e = MergeColumns"
proof (induction rest arbitrary: i acc nc)
  case Nil
  then show ?case by simp
next
  case (Cons s rest)
  obtain mw rows where acc: "acc = (mw, rows)" by (cases acc)
  from Cons.prems show ?case unfolding acc
    by (auto simp: Dims_def split: sum.splits if_splits
        dest: Cons.IH scaled_rowWeights_errors)
qed

lemma copy_rows_errors:
  "copy_rows s js st = Inl e \<Longrightarrow> e = IndexOutOfRange \<or> e = ErrAccess \<or> e = ErrRowLength"
proof (induction js arbitrary: st)
  case Nil
  then show ?case by simp
next
  case (Cons j js)
  obtain names m rout where st: "st = (names, m, rout)" by (cases st)
  from Cons.prems show ?case unfolding st
    by (auto simp: mat_Row_def SetRow_def split: sum.splits if_splits dest: Cons.IH)
qed

lemma merge_rows_errors:
  "merge_rows rest st = Inl e \<Longrightarrow> e = IndexOutOfRange \<or> e = ErrAccess \<or> e = ErrRowLength"
proof (induction rest arbitrary: st)
  case Nil
  then show ?case by simp
next
  case (Cons s rest)
  from Cons.prems show ?case
    by (auto simp: Dims_def split: sum.splits dest: Cons.IH copy_rows_errors)
qed

lemma Merge_late_errors:
  assumes "2 \<le> length sets" and "check_weights (length sets) weights = None"
    and "Merge sets weights = Inl e"
  shows "e \<in> {IndexOutOfRange, MergeColumns, ErrZeroLength, ErrAccess, ErrRowLength}"
  using assms
  by (auto simp: Merge_def Let_def NewDense_def split: sum.splits prod.splits if_splits
      dest: merge_weights_errors merge_rows_errors)

section \<open>The result of \<^verbatim>\<open>Merge\<close>\<close>

subsection \<open>The first loop\<close>

lemma merge_weights_value:
  assumes "merge_weights n weights nc i rest (mw, rows) = Inr (mw', rows')"
    and "\<And>ws. weights = Some ws \<Longrightarrow> i + length rest \<le> length ws"
  shows "mw' = mw @ merged_rowWeights n (map_option (drop i) weights) rest
       \<and> rows' = rows + sum_list (map (\<lambda>s. length (dense_rows (scores s))) rest)
       \<and> (\<forall>s\<in>set rest. dense_cols (scores s) = nc)"
  using assms
proof (induction rest arbitrary: i mw rows)
  case Nil
  then show ?case by (cases weights) (simp_all add: merged_rowWeights_def)
next
  case (Cons s rest)
  from Cons.prems(1) obtain scaled where
    sc: "scaled_rowWeights n weights i (rowWeights s) = Inr scaled"
    and c: "dense_cols (scores s) = nc"
    and rec: "merge_weights n weights nc (Suc i) rest
               (mw @ scaled, rows + length (dense_rows (scores s))) = Inr (mw', rows')"
    by (auto simp: Dims_def split: sum.splits if_splits)
  have "\<And>ws. weights = Some ws \<Longrightarrow> Suc i + length rest \<le> length ws"
    using Cons.prems(2) by fastforce
  from Cons.IH[OF rec this]
  have ih: "mw' = (mw @ scaled) @ merged_rowWeights n (map_option (drop (Suc i)) weights) rest"
    "rows' = rows + length (dense_rows (scores s))
               + sum_list (map (\<lambda>s. length (dense_rows (scores s))) rest)"
    "\<forall>s\<in>set rest. dense_cols (scores s) = nc"
    by auto
  have "scaled @ merged_rowWeights n (map_option (drop (Suc i)) weights) rest
        = merged_rowWeights n (map_option (drop i) weights) (s # rest)"
  proof (cases weights)
    case None
    with sc show ?thesis by (auto simp: merged_rowWeights_def scaled_rowWeights_def)
  next
    case (Some ws)
    with Cons.prems(2) have "i < length ws" by fastforce
    then have d: "drop i ws = ws ! i # drop (Suc i) ws" by (simp add: Cons_nth_drop_Suc)
    from sc Some \<open>i < length ws\<close> show ?thesis
      by (auto simp: merged_rowWeights_def scaled_rowWeights_def d split: if_splits)
  qed
  with ih c show ?case by simp
qed

lemma merge_weights_total:
  assumes "\<forall>s\<in>set rest. dense_cols (scores s) = nc"
    and "\<And>ws. weights = Some ws \<Longrightarrow> i + length rest \<le> length ws"
  shows "\<exists>r. merge_weights n weights nc i rest acc = Inr r"
  using assms
proof (induction rest arbitrary: i acc)
  case Nil
  then show ?case by simp
next
  case (Cons s rest)
  obtain mw rows where acc: "acc = (mw, rows)" by (cases acc)
  have "\<exists>scaled. scaled_rowWeights n weights i (rowWeights s) = Inr scaled"
    using Cons.prems(2) by (cases weights) (fastforce simp: scaled_rowWeights_def)+
  then obtain scaled where sc: "scaled_rowWeights n weights i (rowWeights s) = Inr scaled" ..
  have "\<And>ws. weights = Some ws \<Longrightarrow> Suc i + length rest \<le> length ws"
    using Cons.prems(2) by fastforce
  with Cons.IH[of "Suc i"] Cons.prems(1)
  have "\<exists>r. merge_weights n weights nc (Suc i) rest
            (mw @ scaled, rows + length (dense_rows (scores s))) = Inr r"
    by simp
  with sc Cons.prems(1) show ?case unfolding acc by (simp add: Dims_def)
qed

lemma merge_weights_columns:
  assumes "\<exists>s\<in>set rest. dense_cols (scores s) \<noteq> nc"
    and "\<And>ws. weights = Some ws \<Longrightarrow> i + length rest \<le> length ws"
  shows "merge_weights n weights nc i rest acc = Inl MergeColumns"
  using assms
proof (induction rest arbitrary: i acc)
  case Nil
  then show ?case by simp
next
  case (Cons s rest)
  obtain mw rows where acc: "acc = (mw, rows)" by (cases acc)
  have "\<exists>scaled. scaled_rowWeights n weights i (rowWeights s) = Inr scaled"
    using Cons.prems(2) by (cases weights) (fastforce simp: scaled_rowWeights_def)+
  then obtain scaled where sc: "scaled_rowWeights n weights i (rowWeights s) = Inr scaled" ..
  show ?case
  proof (cases "dense_cols (scores s) = nc")
    case False
    with sc show ?thesis unfolding acc by (simp add: Dims_def)
  next
    case True
    with Cons.prems(1) have ex: "\<exists>s\<in>set rest. dense_cols (scores s) \<noteq> nc" by auto
    have "\<And>ws. weights = Some ws \<Longrightarrow> Suc i + length rest \<le> length ws"
      using Cons.prems(2) by fastforce
    from Cons.IH[OF ex this] sc True show ?thesis unfolding acc by (simp add: Dims_def)
  qed
qed

subsection \<open>The second loop\<close>

lemma copy_rows_value:
  assumes "\<forall>j\<in>set js. j < length (rowNames s) \<and> j < length (dense_rows (scores s))
             \<and> length (dense_rows (scores s) ! j) = dense_cols m"
    and "rout + length js \<le> length (dense_rows m)"
  shows "copy_rows s js (names, m, rout) =
           Inr (names @ map (\<lambda>j. rowNames s ! j) js,
                m\<lparr>dense_rows := take rout (dense_rows m)
                                   @ map (\<lambda>j. dense_rows (scores s) ! j) js
                                   @ drop (rout + length js) (dense_rows m)\<rparr>,
                rout + length js)"
  using assms
proof (induction js arbitrary: names m rout)
  case Nil
  then show ?case by simp
next
  case (Cons j js)
  let ?row = "dense_rows (scores s) ! j"
  let ?m' = "m\<lparr>dense_rows := (dense_rows m)[rout := ?row]\<rparr>"
  from Cons.prems have j: "j < length (rowNames s)" "j < length (dense_rows (scores s))"
    "length ?row = dense_cols m" and rout: "rout < length (dense_rows m)"
    by auto
  have step: "copy_rows s (j # js) (names, m, rout) =
              copy_rows s js (names @ [rowNames s ! j], ?m', rout + 1)"
    using j rout by (simp add: mat_Row_def SetRow_def)
  have p1: "\<forall>j\<in>set js. j < length (rowNames s) \<and> j < length (dense_rows (scores s))
             \<and> length (dense_rows (scores s) ! j) = dense_cols ?m'"
    using Cons.prems(1) by simp
  have p2: "(rout + 1) + length js \<le> length (dense_rows ?m')"
    using Cons.prems(2) by simp
  have t: "take (rout + 1) (dense_rows ?m') = take rout (dense_rows m) @ [?row]"
    using rout by (simp add: take_Suc_conv_app_nth)
  have d: "drop (rout + 1 + length js) (dense_rows ?m') = drop (rout + length (j # js)) (dense_rows m)"
    by simp
  show ?case
    unfolding step Cons.IH[OF p1 p2] t d by simp
qed

lemma merge_rows_value:
  assumes "\<forall>s\<in>set rest. length (rowNames s) = length (dense_rows (scores s))
             \<and> list_all (\<lambda>row. length row = dense_cols m) (dense_rows (scores s))"
    and "rout + sum_list (map (\<lambda>s. length (dense_rows (scores s))) rest) \<le> length (dense_rows m)"
  shows "merge_rows rest (names, m, rout) =
           Inr (names @ concat (map rowNames rest),
                m\<lparr>dense_rows := take rout (dense_rows m)
                                   @ concat (map (\<lambda>s. dense_rows (scores s)) rest)
                                   @ drop (rout + sum_list (map (\<lambda>s. length (dense_rows (scores s))) rest))
                                        (dense_rows m)\<rparr>,
                rout + sum_list (map (\<lambda>s. length (dense_rows (scores s))) rest))"
  using assms
proof (induction rest arbitrary: names m rout)
  case Nil
  then show ?case by simp
next
  case (Cons s rest)
  let ?R = "dense_rows (scores s)"
  let ?r = "length ?R"
  let ?m' = "m\<lparr>dense_rows := take rout (dense_rows m) @ ?R @ drop (rout + ?r) (dense_rows m)\<rparr>"
  from Cons.prems have s: "length (rowNames s) = ?r"
    "list_all (\<lambda>row. length row = dense_cols m) ?R"
    and le: "rout + ?r \<le> length (dense_rows m)"
    by auto
  have c1: "\<forall>j\<in>set [0..<?r]. j < length (rowNames s) \<and> j < ?r \<and> length (?R ! j) = dense_cols m"
    using s by (auto simp: list_all_length)
  have c2: "rout + length [0..<?r] \<le> length (dense_rows m)"
    using le by simp
  have copy: "copy_rows s [0..<?r] (names, m, rout) = Inr (names @ rowNames s, ?m', rout + ?r)"
    using copy_rows_value[OF c1 c2, of names] s(1)
    by (simp add: map_nth) (metis map_nth)
  have p1: "\<forall>s\<in>set rest. length (rowNames s) = length (dense_rows (scores s))
             \<and> list_all (\<lambda>row. length row = dense_cols ?m') (dense_rows (scores s))"
    using Cons.prems(1) by simp
  have len: "length (dense_rows ?m') = length (dense_rows m)"
    using le by simp
  have p2: "(rout + ?r) + sum_list (map (\<lambda>s. length (dense_rows (scores s))) rest)
              \<le> length (dense_rows ?m')"
    using Cons.prems(2) unfolding len by simp
  have t: "take (rout + ?r) (dense_rows ?m') = take rout (dense_rows m) @ ?R"
    using le by simp
  have d: "drop (rout + ?r + k) (dense_rows ?m') = drop (rout + ?r + k) (dense_rows m)" for k
    using le by (simp add: add.commute drop_drop[symmetric] del: drop_drop)
  show ?case
    using copy Cons.IH[OF p1 p2, of "names @ rowNames s"] t d
    by (simp add: Dims_def add.assoc)
qed

section \<open>Some values\<close>

lemma f64_of_nat_small: "n < 2 ^ 53 \<Longrightarrow> f64_of_nat n = Fin (real n)"
  by (simp add: f64_of_nat_def is_f64_round is_f64_nat)

lemma f64_add_zero: "is_f64 a \<Longrightarrow> f64_add (Fin 0) (Fin a) = Fin a"
  by (simp add: is_f64_round)

lemma is_f64_half [simp]: "is_f64 (1 / 2)"
  using is_f64_frac[of 1 1] by simp

lemma is_f64_quarter [simp]: "is_f64 (1 / 4)"
  using is_f64_frac[of 1 2] by simp

lemma is_f64_three_quarters [simp]: "is_f64 (3 / 4)"
  using is_f64_frac[of 3 2] by simp

lemma f64_round_numeral: "numeral n < (2::int) ^ 53 \<Longrightarrow> f64_round (numeral n) = Fin (numeral n)"
  by (rule is_f64_round) (rule is_f64_numeral)

lemma f64_round_1 [simp]: "f64_round 1 = Fin 1"
  by (rule is_f64_round) simp

lemma f64_round_half [simp]: "f64_round (1 / 2) = Fin (1 / 2)"
  by (rule is_f64_round) simp

text \<open>The literals 0.7, 0.3 and 0.4 and the running totals \<open>0.7 + 0.3\<close> and
  \<open>0.5 + 0.4\<close>.\<close>

lemma lit_07: "f64_lit (7 / 10) = Fin d07"
proof -
  have "f64_round (7 / 10) = Fin (of_int 6305039478318694 * 2 powi (- 1 - 52))"
  proof (rule f64_round_eval)
    show "2 powi (- 1) \<le> \<bar>7 / 10 :: real\<bar>" by (simp add: power_int_minus)
    show "\<bar>7 / 10 :: real\<bar> < 2 powi (- 1 + 1)" by simp
    show "rne (7 / 10 / 2 powi (- 1 - 52)) = 6305039478318694"
      by (rule rne_eqI) (simp_all add: power_int_minus)
    show "\<bar>of_int 6305039478318694 * 2 powi (- 1 - 52)\<bar> < f64_huge"
      by (rule f64_huge_gt) (simp add: power_int_minus)
  qed simp
  then show ?thesis by (simp add: f64_lit_def d07_def power_int_minus)
qed

lemma lit_03: "f64_lit (3 / 10) = Fin d03"
proof -
  have "f64_round (3 / 10) = Fin (of_int 5404319552844595 * 2 powi (- 2 - 52))"
  proof (rule f64_round_eval)
    show "2 powi (- 2) \<le> \<bar>3 / 10 :: real\<bar>" by (simp add: power_int_minus)
    show "\<bar>3 / 10 :: real\<bar> < 2 powi (- 2 + 1)" by (simp add: power_int_minus)
    show "rne (3 / 10 / 2 powi (- 2 - 52)) = 5404319552844595"
      by (rule rne_eqI) (simp_all add: power_int_minus)
    show "\<bar>of_int 5404319552844595 * 2 powi (- 2 - 52)\<bar> < f64_huge"
      by (rule f64_huge_gt) (simp add: power_int_minus)
  qed simp
  then show ?thesis by (simp add: f64_lit_def d03_def power_int_minus)
qed

lemma lit_04: "f64_lit (2 / 5) = Fin d04"
proof -
  have "f64_round (2 / 5) = Fin (of_int 7205759403792794 * 2 powi (- 2 - 52))"
  proof (rule f64_round_eval)
    show "2 powi (- 2) \<le> \<bar>2 / 5 :: real\<bar>" by (simp add: power_int_minus)
    show "\<bar>2 / 5 :: real\<bar> < 2 powi (- 2 + 1)" by (simp add: power_int_minus)
    show "rne (2 / 5 / 2 powi (- 2 - 52)) = 7205759403792794"
      by (rule rne_eqI) (simp_all add: power_int_minus)
    show "\<bar>of_int 7205759403792794 * 2 powi (- 2 - 52)\<bar> < f64_huge"
      by (rule f64_huge_gt) (simp add: power_int_minus)
  qed simp
  then show ?thesis by (simp add: f64_lit_def d04_def power_int_minus)
qed

lemma lit_05: "f64_lit (1 / 2) = Fin (1 / 2)"
  by (simp add: f64_lit_def is_f64_round)

lemma is_f64_d07 [simp]: "is_f64 d07"
  unfolding d07_def using is_f64_frac[of 6305039478318694 53] by simp

lemma is_f64_d03 [simp]: "is_f64 d03"
  unfolding d03_def using is_f64_frac[of 5404319552844595 54] by simp

lemma is_f64_d04 [simp]: "is_f64 d04"
  unfolding d04_def using is_f64_frac[of 7205759403792794 54] by simp

lemma sum_07_03: "f64_round (d07 + d03) = Fin 1"
proof -
  let ?x = "d07 + d03"
  have x: "?x = 18014398509481983 / 2 ^ 54" by (simp add: d07_def d03_def)
  have "f64_round ?x = Fin (of_int 9007199254740992 * 2 powi (- 1 - 52))"
  proof (rule f64_round_eval)
    show "2 powi (- 1) \<le> \<bar>?x\<bar>" unfolding x by (simp add: power_int_minus)
    show "\<bar>?x\<bar> < 2 powi (- 1 + 1)" unfolding x by simp
    have "rne (?x / 2 powi (- 1 - 52)) =
            (if even (9007199254740991::int) then 9007199254740991 else 9007199254740991 + 1)"
      unfolding x by (rule rne_tie) (simp add: power_int_minus)
    then show "rne (?x / 2 powi (- 1 - 52)) = 9007199254740992" by simp
    show "\<bar>of_int 9007199254740992 * 2 powi (- 1 - 52)\<bar> < f64_huge"
      by (rule f64_huge_gt) (simp add: power_int_minus)
  qed simp
  then show ?thesis by (simp add: power_int_minus)
qed

lemma sum_05_04: "f64_round (1 / 2 + d04) = Fin (8106479329266893 / 2 ^ 53)"
proof -
  have x: "(1 / 2 + d04) = of_int 8106479329266893 / 2 ^ 53" by (simp add: d04_def)
  have "f64_round (of_int 8106479329266893 / 2 ^ 53) = Fin (of_int 8106479329266893 / 2 ^ 53)"
    by (rule is_f64_dyadic) simp_all
  then have "f64_round (1 / 2 + d04) = Fin (of_int 8106479329266893 / 2 ^ 53)"
    by (simp only: x)
  then show ?thesis by simp
qed

lemma total_07_03: "f64_accum (Fin 0) [f64_lit (7 / 10), f64_lit (3 / 10)] = Fin 1"
  by (simp add: lit_07 lit_03 is_f64_round sum_07_03)

lemma total_05_04:
  "f64_accum (Fin 0) [f64_lit (1 / 2), f64_lit (2 / 5)] = Fin (8106479329266893 / 2 ^ 53)"
  by (simp add: lit_05 lit_04 is_f64_round sum_05_04)

subsection \<open>The merged score set and the opening checks\<close>

lemma check_weights_None_iff:
  "(check_weights n weights = None) =
   (weights = None \<or> (\<exists>ws. weights = Some ws \<and> length ws = n \<and> f64_accum (Fin 0) ws = Fin 1))"
  by (cases weights) (auto simp: check_weights_def f64_ne_one)

lemma Merge_value:
  assumes n: "2 \<le> length sets"
    and cw: "check_weights (length sets) weights = None"
    and cols: "\<forall>s\<in>set sets. dense_cols (scores s) = length (columnNames (sets ! 0))"
    and wf: "\<forall>s\<in>set sets. length (rowNames s) = length (dense_rows (scores s))
               \<and> list_all (\<lambda>row. length row = dense_cols (scores s)) (dense_rows (scores s))"
    and nz: "0 < length (columnNames (sets ! 0))" "\<exists>s\<in>set sets. dense_rows (scores s) \<noteq> []"
  shows "Merge sets weights =
           Inr \<lparr>columnNames = columnNames (sets ! 0),
                rowNames = concat (map rowNames sets),
                rowWeights = merged_rowWeights (length sets) weights sets,
                scores = \<lparr>dense_cols = length (columnNames (sets ! 0)),
                          dense_rows = concat (map (\<lambda>s. dense_rows (scores s)) sets)\<rparr>\<rparr>"
proof -
  let ?nc = "length (columnNames (sets ! 0))"
  let ?total = "sum_list (map (\<lambda>s. length (dense_rows (scores s))) sets)"
  have idx: "\<And>ws. weights = Some ws \<Longrightarrow> 0 + length sets \<le> length ws"
    using cw by (auto simp: check_weights_None_iff)
  from merge_weights_total[OF cols idx, where n="length sets" and acc="([], 0)"]
  obtain mw rows where mwr: "merge_weights (length sets) weights ?nc 0 sets ([], 0) = Inr (mw, rows)"
    by force
  from merge_weights_value[OF mwr idx]
  have mw: "mw = merged_rowWeights (length sets) weights sets" and rows: "rows = ?total"
    by (cases weights; simp)+
  from nz(2) have "0 < ?total"
    by (induction sets) auto
  then have rpos: "rows \<noteq> 0" unfolding rows by (rule less_imp_neq[THEN not_sym])
  let ?m0 = "\<lparr>dense_cols = ?nc, dense_rows = replicate rows (replicate ?nc (Fin 0))\<rparr>"
  have nd: "NewDense rows ?nc None = Inr ?m0"
    using nz(1) rpos by (simp add: NewDense_def)
  have p1: "\<forall>s\<in>set sets. length (rowNames s) = length (dense_rows (scores s))
             \<and> list_all (\<lambda>row. length row = dense_cols ?m0) (dense_rows (scores s))"
    using wf cols by simp
  have p2: "0 + ?total \<le> length (dense_rows ?m0)" using rows by simp
  have mr: "merge_rows sets ([], ?m0, 0) =
          Inr (concat (map rowNames sets),
               \<lparr>dense_cols = ?nc, dense_rows = concat (map (\<lambda>s. dense_rows (scores s)) sets)\<rparr>,
               ?total)"
    using merge_rows_value[OF p1 p2, of "[]"] rows by simp
  show ?thesis
    using n cw mwr nd mr mw by (simp add: Merge_def Let_def)
qed

text \<open>
  C6. \<^verbatim>\<open>Merge\<close> returns no score set, but the error of its first checks, in exactly
  these cases: fewer than two sets; a weight vector whose length is not the number of
  sets; a weight vector whose running total, as \<^verbatim>\<open>float64\<close> addition computes it, is
  not exactly 1 (no tolerance). No later step of \<^verbatim>\<open>Merge\<close> gives one of these three
  errors.
\<close>

theorem Merge_fails_fast:
  "(length sets < 2 \<longrightarrow> Merge sets weights = Inl MergeTooFewSets) \<and>
   (2 \<le> length sets \<and> weights = Some ws \<and> length ws \<noteq> length sets
      \<longrightarrow> Merge sets weights = Inl MergeLengthMismatch) \<and>
   (2 \<le> length sets \<and> weights = Some ws \<and> length ws = length sets
      \<and> f64_accum (Fin 0) ws \<noteq> Fin 1
      \<longrightarrow> Merge sets weights = Inl MergeWeightSum) \<and>
   (Merge sets weights \<in> {Inl MergeTooFewSets, Inl MergeLengthMismatch, Inl MergeWeightSum}
      \<longrightarrow> length sets < 2
          \<or> (\<exists>ws'. weights = Some ws'
                \<and> (length ws' \<noteq> length sets \<or> f64_accum (Fin 0) ws' \<noteq> Fin 1)))"
proof (intro conjI impI)
  assume "length sets < 2"
  then show "Merge sets weights = Inl MergeTooFewSets" by (simp add: Merge_def)
next
  assume "2 \<le> length sets \<and> weights = Some ws \<and> length ws \<noteq> length sets"
  then show "Merge sets weights = Inl MergeLengthMismatch"
    by (auto simp: Merge_def check_weights_def)
next
  assume "2 \<le> length sets \<and> weights = Some ws \<and> length ws = length sets
      \<and> f64_accum (Fin 0) ws \<noteq> Fin 1"
  then show "Merge sets weights = Inl MergeWeightSum"
    by (auto simp: Merge_def check_weights_def f64_ne_one)
next
  assume a: "Merge sets weights \<in> {Inl MergeTooFewSets, Inl MergeLengthMismatch, Inl MergeWeightSum}"
  show "length sets < 2
          \<or> (\<exists>ws'. weights = Some ws'
                \<and> (length ws' \<noteq> length sets \<or> f64_accum (Fin 0) ws' \<noteq> Fin 1))"
  proof (rule ccontr)
    assume "\<not> ?thesis"
    then have n: "2 \<le> length sets" and cw: "check_weights (length sets) weights = None"
      by (auto simp: check_weights_None_iff) (cases weights; auto)+
    from a obtain e where e: "Merge sets weights = Inl e"
      "e \<in> {MergeTooFewSets, MergeLengthMismatch, MergeWeightSum}" by auto
    from Merge_late_errors[OF n cw e(1)] e(2) show False by auto
  qed
qed

theorem Merge_fails_fast_witness:
  "Merge [] None = Inl MergeTooFewSets \<and>
   Merge [leaf_row [''A''] ''/x'' [Fin 0], leaf_row [''A''] ''/y'' [Fin 0]] (Some [Fin 1])
     = Inl MergeLengthMismatch \<and>
   Merge [leaf_row [''A''] ''/x'' [Fin 0], leaf_row [''A''] ''/y'' [Fin 0]]
     (Some [f64_lit 0.5, f64_lit 0.4]) = Inl MergeWeightSum"
proof -
  let ?sets = "[leaf_row [''A''] ''/x'' [Fin 0], leaf_row [''A''] ''/y'' [Fin 0]]"
  have 1: "Merge [] None = Inl MergeTooFewSets"
    using Merge_fails_fast[of "[]" None "[]"] by simp
  have 2: "Merge ?sets (Some [Fin 1]) = Inl MergeLengthMismatch"
    using Merge_fails_fast[of ?sets "Some [Fin 1]" "[Fin 1]"] by simp
  have "f64_accum (Fin 0) [f64_lit (1 / 2), f64_lit (2 / 5)] \<noteq> Fin 1"
    unfolding total_05_04 by simp
  then have 3: "Merge ?sets (Some [f64_lit 0.5, f64_lit 0.4]) = Inl MergeWeightSum"
    using Merge_fails_fast[of ?sets "Some [f64_lit (1 / 2), f64_lit (2 / 5)]"
        "[f64_lit (1 / 2), f64_lit (2 / 5)]"] by simp
  from 1 2 3 show ?thesis by simp
qed

subsection \<open>Columns and rows\<close>

lemma merge_weights_index:
  "check_weights (length sets) weights = None \<Longrightarrow> weights = Some ws
     \<Longrightarrow> 0 + length sets \<le> length ws"
  by (auto simp: check_weights_None_iff)

lemma Merge_columns_iff:
  assumes n: "2 \<le> length sets" and cw: "check_weights (length sets) weights = None"
  shows "(Merge sets weights = Inl MergeColumns) =
         (\<exists>s\<in>set sets. dense_cols (scores s) \<noteq> length (columnNames (sets ! 0)))"
proof
  let ?nc = "length (columnNames (sets ! 0))"
  assume ex: "\<exists>s\<in>set sets. dense_cols (scores s) \<noteq> ?nc"
  have "merge_weights (length sets) weights ?nc 0 sets ([], 0) = Inl MergeColumns"
    by (rule merge_weights_columns[OF ex]) (rule merge_weights_index[OF cw])
  with n cw show "Merge sets weights = Inl MergeColumns"
    by (simp add: Merge_def Let_def)
next
  let ?nc = "length (columnNames (sets ! 0))"
  assume m: "Merge sets weights = Inl MergeColumns"
  show "\<exists>s\<in>set sets. dense_cols (scores s) \<noteq> ?nc"
  proof (rule ccontr)
    assume "\<not> ?thesis"
    then have cols: "\<forall>s\<in>set sets. dense_cols (scores s) = ?nc" by simp
    from merge_weights_total[OF cols merge_weights_index[OF cw],
        where n="length sets" and acc="([], 0)"]
    obtain mw rows where
      r: "merge_weights (length sets) weights ?nc 0 sets ([], 0) = Inr (mw, rows)"
      by fastforce
    have unfold: "Merge sets weights =
        (case NewDense rows ?nc None of
           Inl e \<Rightarrow> Inl e
         | Inr m0 \<Rightarrow>
             (case merge_rows sets ([], m0, 0) of
                Inl e \<Rightarrow> Inl e
              | Inr (names, m, rout) \<Rightarrow>
                  Inr \<lparr>columnNames = columnNames (sets ! 0), rowNames = names,
                       rowWeights = mw, scores = m\<rparr>))"
      using n cw r by (simp add: Merge_def Let_def)
    show False
    proof (cases "NewDense rows ?nc None")
      case (Inl e)
      then have "e = ErrZeroLength" by (simp add: NewDense_def split: if_splits)
      with Inl m unfold show False by simp
    next
      case (Inr m0)
      show False
      proof (cases "merge_rows sets ([], m0, 0)")
        case (Inl e)
        from merge_rows_errors[OF this] Inl Inr m unfold show False by auto
      next
        case inr: (Inr st)
        with Inr m unfold show False by (simp split: prod.splits)
      qed
    qed
  qed
qed

text \<open>
  C2, as the code has it. Once the opening checks have passed, \<^verbatim>\<open>Merge\<close> fails on
  the columns exactly when the matrix of some set has a number of columns other than the
  number of column names of the first set. Column names are not compared: well-formed
  sets with as many columns as the first set, whatever their names, are merged, and the
  result has the column names of the first set.
\<close>

theorem Merge_checks_column_count:
  assumes "2 \<le> length sets"
    and "weights = None \<or> (\<exists>ws. weights = Some ws \<and> length ws = length sets
                                   \<and> f64_accum (Fin 0) ws = Fin 1)"
  shows "((Merge sets weights = Inl MergeColumns) =
            (\<exists>s\<in>set sets. dense_cols (scores s) \<noteq> length (columnNames (sets ! 0))))
         \<and> ((\<forall>s\<in>set sets. wf_ScoreSet s
                  \<and> length (columnNames s) = length (columnNames (sets ! 0)))
              \<longrightarrow> (\<exists>m. Merge sets weights = Inr m
                        \<and> columnNames m = columnNames (sets ! 0)))"
proof (intro conjI impI)
  have cw: "check_weights (length sets) weights = None"
    using assms(2) by (simp add: check_weights_None_iff)
  show "(Merge sets weights = Inl MergeColumns) =
          (\<exists>s\<in>set sets. dense_cols (scores s) \<noteq> length (columnNames (sets ! 0)))"
    by (rule Merge_columns_iff[OF assms(1) cw])
  assume a: "\<forall>s\<in>set sets. wf_ScoreSet s
                  \<and> length (columnNames s) = length (columnNames (sets ! 0))"
  from assms(1) have "0 < length sets" by auto
  then have hdin: "sets ! 0 \<in> set sets" by (rule nth_mem)
  have wfs: "wf_ScoreSet s" and same: "length (columnNames s) = length (columnNames (sets ! 0))"
    if "s \<in> set sets" for s
    using a that by blast+
  have cols: "\<forall>s\<in>set sets. dense_cols (scores s) = length (columnNames (sets ! 0))"
  proof
    fix s assume s: "s \<in> set sets"
    from wfs[OF s] same[OF s] show "dense_cols (scores s) = length (columnNames (sets ! 0))"
      by (simp add: wf_ScoreSet_def)
  qed
  have wf: "\<forall>s\<in>set sets. length (rowNames s) = length (dense_rows (scores s))
               \<and> list_all (\<lambda>row. length row = dense_cols (scores s)) (dense_rows (scores s))"
  proof
    fix s assume s: "s \<in> set sets"
    from wfs[OF s]
    show "length (rowNames s) = length (dense_rows (scores s))
               \<and> list_all (\<lambda>row. length row = dense_cols (scores s)) (dense_rows (scores s))"
      by (simp add: wf_ScoreSet_def wf_Dense_def)
  qed
  have nz1: "0 < length (columnNames (sets ! 0))"
    using wfs[OF hdin] by (simp add: wf_ScoreSet_def wf_Dense_def)
  have "dense_rows (scores (sets ! 0)) \<noteq> []"
    using wfs[OF hdin] by (simp add: wf_ScoreSet_def wf_Dense_def)
  with hdin have nz2: "\<exists>s\<in>set sets. dense_rows (scores s) \<noteq> []" by blast
  from Merge_value[OF assms(1) cw cols wf nz1 nz2]
  show "\<exists>m. Merge sets weights = Inr m \<and> columnNames m = columnNames (sets ! 0)"
    by simp
qed

text \<open>A set of two columns and a set of one column are refused; two sets of two columns
  with different names are merged.\<close>

theorem Merge_checks_column_count_witness:
  "Merge [leaf_row [''A'', ''B''] ''/x'' [Fin 1, Fin (- 1)],
          leaf_row [''A''] ''/y'' [Fin 0]] None = Inl MergeColumns
   \<and> (\<exists>m. Merge [leaf_row [''A'', ''B''] ''/x'' [Fin 1, Fin (- 1)],
                  leaf_row [''C'', ''D''] ''/y'' [Fin 0, Fin 0]] None = Inr m
          \<and> columnNames m = [''A'', ''B''])"
proof -
  have 1: "Merge [leaf_row [''A'', ''B''] ''/x'' [Fin 1, Fin (- 1)],
          leaf_row [''A''] ''/y'' [Fin 0]] None = Inl MergeColumns"
    using Merge_checks_column_count[of
      "[leaf_row [''A'', ''B''] ''/x'' [Fin 1, Fin (- 1)], leaf_row [''A''] ''/y'' [Fin 0]]" None]
    by (simp add: leaf_row_def)
  have 2: "\<exists>m. Merge [leaf_row [''A'', ''B''] ''/x'' [Fin 1, Fin (- 1)],
                  leaf_row [''C'', ''D''] ''/y'' [Fin 0, Fin 0]] None = Inr m
          \<and> columnNames m = [''A'', ''B'']"
    using Merge_checks_column_count[of
      "[leaf_row [''A'', ''B''] ''/x'' [Fin 1, Fin (- 1)],
        leaf_row [''C'', ''D''] ''/y'' [Fin 0, Fin 0]]" None]
    by (simp add: leaf_row_def wf_ScoreSet_def wf_Dense_def)
  from 1 2 show ?thesis by simp
qed

text \<open>
  Two sets with the same alternatives in a different order are merged: the result takes
  the column names of the first set, and the second row keeps the order of the second.
\<close>

theorem Merge_reordered_columns_counterexample:
  "Merge [leaf_row [''A'', ''B''] ''/x'' [Fin 1, Fin (- 1)],
          leaf_row [''B'', ''A''] ''/y'' [Fin 1, Fin (- 1)]] None =
     Inr \<lparr>columnNames = [''A'', ''B''],
          rowNames = [''/x'', ''/y''],
          rowWeights = [Fin (1 / 2), Fin (1 / 2)],
          scores = \<lparr>dense_cols = 2,
                    dense_rows = [[Fin 1, Fin (- 1)], [Fin 1, Fin (- 1)]]\<rparr>\<rparr>"
proof -
  let ?sets = "[leaf_row [''A'', ''B''] ''/x'' [Fin 1, Fin (- 1)],
                leaf_row [''B'', ''A''] ''/y'' [Fin 1, Fin (- 1)]]"
  have "check_weights (length ?sets) None = None" by (simp add: check_weights_def)
  from Merge_value[of ?sets None, OF _ this] show ?thesis
    by (simp add: leaf_row_def merged_rowWeights_def f64_of_nat_def f64_round_numeral)
qed

text \<open>
  C3. A merge of two or more well-formed score sets with the same columns, with no
  weights or with as many weights as sets whose running \<^verbatim>\<open>float64\<close> total is 1, succeeds. Its columns are those
  of the sets, its row labels and its matrix rows are those of the sets, concatenated in
  the order of the sets and otherwise unchanged, and its row weights are the row weights
  of the sets, each times the weight of its set, or each divided by the number of sets
  when there are no weights.
\<close>

theorem Merge_concatenates:
  assumes "2 \<le> length sets"
    and "\<forall>s\<in>set sets. wf_ScoreSet s \<and> columnNames s = columnNames (hd sets)"
    and "weights = None \<or> (\<exists>ws. weights = Some ws \<and> length ws = length sets
                                   \<and> f64_accum (Fin 0) ws = Fin 1)"
  shows "Merge sets weights =
           Inr \<lparr>columnNames = columnNames (hd sets),
                rowNames = concat (map rowNames sets),
                rowWeights =
                  (case weights of
                     None \<Rightarrow>
                       concat (map (\<lambda>s. map (\<lambda>rw. f64_div rw (f64_of_nat (length sets)))
                                          (rowWeights s)) sets)
                   | Some ws \<Rightarrow>
                       concat (map (\<lambda>(s, w). map (\<lambda>rw. f64_mul rw w) (rowWeights s))
                                 (zip sets ws))),
                scores = \<lparr>dense_cols = length (columnNames (hd sets)),
                          dense_rows = concat (map (\<lambda>s. dense_rows (scores s)) sets)\<rparr>\<rparr>"
proof -
  from assms(1) have ne: "sets \<noteq> []" by auto
  then have hd0: "sets ! 0 = hd sets" by (simp add: hd_conv_nth)
  from ne have hdin: "hd sets \<in> set sets" by simp
  have wfs: "wf_ScoreSet s" and same: "columnNames s = columnNames (hd sets)"
    if "s \<in> set sets" for s
    using assms(2) that by blast+
  have cw: "check_weights (length sets) weights = None"
    using assms(3) by (simp add: check_weights_None_iff)
  have cols: "\<forall>s\<in>set sets. dense_cols (scores s) = length (columnNames (sets ! 0))"
  proof
    fix s assume s: "s \<in> set sets"
    from wfs[OF s] same[OF s] show "dense_cols (scores s) = length (columnNames (sets ! 0))"
      by (simp add: wf_ScoreSet_def hd0)
  qed
  have wf: "\<forall>s\<in>set sets. length (rowNames s) = length (dense_rows (scores s))
               \<and> list_all (\<lambda>row. length row = dense_cols (scores s)) (dense_rows (scores s))"
  proof
    fix s assume s: "s \<in> set sets"
    from wfs[OF s]
    show "length (rowNames s) = length (dense_rows (scores s))
               \<and> list_all (\<lambda>row. length row = dense_cols (scores s)) (dense_rows (scores s))"
      by (simp add: wf_ScoreSet_def wf_Dense_def)
  qed
  have nz1: "0 < length (columnNames (sets ! 0))"
    using wfs[OF hdin] by (simp add: wf_ScoreSet_def wf_Dense_def hd0)
  have "dense_rows (scores (hd sets)) \<noteq> []"
    using wfs[OF hdin] by (simp add: wf_ScoreSet_def wf_Dense_def)
  with hdin have nz2: "\<exists>s\<in>set sets. dense_rows (scores s) \<noteq> []" by blast
  have "Merge sets weights =
           Inr \<lparr>columnNames = columnNames (sets ! 0),
                rowNames = concat (map rowNames sets),
                rowWeights = merged_rowWeights (length sets) weights sets,
                scores = \<lparr>dense_cols = length (columnNames (sets ! 0)),
                          dense_rows = concat (map (\<lambda>s. dense_rows (scores s)) sets)\<rparr>\<rparr>"
    by (rule Merge_value[OF assms(1) cw cols wf nz1 nz2])
  then show ?thesis
    by (simp only: hd0 merged_rowWeights_def)
qed

theorem Merge_concatenates_witness:
  "Merge [leaf_row [''A'', ''B''] ''/x'' [Fin 1, Fin (- 1)],
          leaf_row [''A'', ''B''] ''/y'' [Fin (- 1), Fin 1]]
         (Some [f64_lit 0.7, f64_lit 0.3]) =
     Inr \<lparr>columnNames = [''A'', ''B''],
          rowNames = [''/x'', ''/y''],
          rowWeights = [f64_lit 0.7, f64_lit 0.3],
          scores = \<lparr>dense_cols = 2,
                    dense_rows = [[Fin 1, Fin (- 1)], [Fin (- 1), Fin 1]]\<rparr>\<rparr>
   \<and> Merge [leaf_row [''A'', ''B''] ''/x'' [Fin 1, Fin (- 1)],
            leaf_row [''A'', ''B''] ''/y'' [Fin (- 1), Fin 1]] None =
     Inr \<lparr>columnNames = [''A'', ''B''],
          rowNames = [''/x'', ''/y''],
          rowWeights = [Fin (1 / 2), Fin (1 / 2)],
          scores = \<lparr>dense_cols = 2,
                    dense_rows = [[Fin 1, Fin (- 1)], [Fin (- 1), Fin 1]]\<rparr>\<rparr>"
proof -
  let ?sets = "[leaf_row [''A'', ''B''] ''/x'' [Fin 1, Fin (- 1)],
                leaf_row [''A'', ''B''] ''/y'' [Fin (- 1), Fin 1]]"
  let ?ws = "[f64_lit (7 / 10), f64_lit (3 / 10)]"
  have wf: "\<forall>s\<in>set ?sets. wf_ScoreSet s \<and> columnNames s = columnNames (hd ?sets)"
    by (simp add: leaf_row_def wf_ScoreSet_def wf_Dense_def)
  have n: "2 \<le> length ?sets" by simp
  have w: "Some ?ws = None \<or> (\<exists>ws. Some ?ws = Some ws
             \<and> length ws = length ?sets \<and> f64_accum (Fin 0) ws = Fin 1)"
  proof (rule disjI2, rule exI[of _ ?ws], intro conjI)
    show "Some ?ws = Some ?ws" ..
    show "length ?ws = length ?sets" by simp
    show "f64_accum (Fin 0) ?ws = Fin 1" by (rule total_07_03)
  qed
  have ok: "f64_ok (f64_lit x)" for x by (simp add: f64_lit_def)
  have 1: "Merge ?sets (Some ?ws) =
     Inr \<lparr>columnNames = [''A'', ''B''],
          rowNames = [''/x'', ''/y''],
          rowWeights = ?ws,
          scores = \<lparr>dense_cols = 2,
                    dense_rows = [[Fin 1, Fin (- 1)], [Fin (- 1), Fin 1]]\<rparr>\<rparr>"
    using Merge_concatenates[OF n wf w] by (simp add: leaf_row_def f64_mul_one ok)
  have 2: "Merge ?sets None =
     Inr \<lparr>columnNames = [''A'', ''B''],
          rowNames = [''/x'', ''/y''],
          rowWeights = [Fin (1 / 2), Fin (1 / 2)],
          scores = \<lparr>dense_cols = 2,
                    dense_rows = [[Fin 1, Fin (- 1)], [Fin (- 1), Fin 1]]\<rparr>\<rparr>"
    using Merge_concatenates[OF n wf, of None]
    by (simp add: leaf_row_def f64_of_nat_def f64_round_numeral)
  from 1 2 show ?thesis by simp
qed

end
